(* ===== verification/Prelude.thy ===== *)
theory Prelude
  imports Complex_Main "HOL-Library.Multiset" "HOL-Library.Option_ord"
begin

text \<open>
  Shared vocabulary of the ridgeline-plot development (\<open>src/main.js\<close>).
  JavaScript numbers are IEEE doubles; the model reads them as exact reals with
  one extra value \<open>NaN\<close>, which is what \<open>+"abc"\<close>, \<open>undefined * 1000\<close> and
  arithmetic on such values produce.  Infinities and rounding are not modelled
  (the data are week counts and epoch seconds, far inside the exact range).
  The theory also holds the collections of rewrite rules the component theories
  share and the generic list lemmas their proofs use.
\<close>

named_theorems js_num_simps "evaluation rules of JavaScript number operations"

datatype jsnum = Num real | NaN

text \<open>Binary arithmetic: any \<open>NaN\<close> operand gives \<open>NaN\<close>.\<close>

fun js_add :: "jsnum \<Rightarrow> jsnum \<Rightarrow> jsnum" where
  "js_add (Num a) (Num b) = Num (a + b)"
| "js_add _ _ = NaN"

fun js_sub :: "jsnum \<Rightarrow> jsnum \<Rightarrow> jsnum" where
  "js_sub (Num a) (Num b) = Num (a - b)"
| "js_sub _ _ = NaN"

fun js_mul :: "jsnum \<Rightarrow> jsnum \<Rightarrow> jsnum" where
  "js_mul (Num a) (Num b) = Num (a * b)"
| "js_mul _ _ = NaN"

text \<open>\<open>isNaN\<close>, and the comparable reading used by \<open>d3.max\<close> (\<open>v >= v\<close>).\<close>

fun is_nan :: "jsnum \<Rightarrow> bool" where
  "is_nan NaN = True"
| "is_nan (Num _) = False"

fun num_opt :: "jsnum \<Rightarrow> real option" where
  "num_opt (Num r) = Some r"
| "num_opt NaN = None"

text \<open>The finite part of a number, zero for \<open>NaN\<close> (what \<open>d3.sum\<close> adds).\<close>

fun finite_part :: "jsnum \<Rightarrow> real" where
  "finite_part (Num r) = r"
| "finite_part NaN = 0"

text \<open>\<open>a < b\<close> on numbers (false when either is \<open>NaN\<close>) and applying a real
  function to a number, \<open>NaN\<close> passing through.\<close>

fun js_less :: "jsnum \<Rightarrow> jsnum \<Rightarrow> bool" where
  "js_less (Num a) (Num b) = (a < b)"
| "js_less _ _ = False"

fun num_map :: "(real \<Rightarrow> real) \<Rightarrow> jsnum \<Rightarrow> jsnum" where
  "num_map f (Num r) = Num (f r)"
| "num_map f NaN = NaN"

type_synonym 'a comparator = "'a \<Rightarrow> 'a \<Rightarrow> jsnum"

lemma js_add_Num_iff [js_num_simps]:
  "js_add a b = Num r \<longleftrightarrow> (\<exists>x y. a = Num x \<and> b = Num y \<and> r = x + y)"
  by (cases a; cases b) auto

lemma js_sub_Num_iff [js_num_simps]:
  "js_sub a b = Num r \<longleftrightarrow> (\<exists>x y. a = Num x \<and> b = Num y \<and> r = x - y)"
  by (cases a; cases b) auto

lemma js_mul_Num_iff [js_num_simps]:
  "js_mul a b = Num r \<longleftrightarrow> (\<exists>x y. a = Num x \<and> b = Num y \<and> r = x * y)"
  by (cases a; cases b) auto

lemma is_nan_iff [js_num_simps]: "is_nan v \<longleftrightarrow> v = NaN"
  by (cases v) auto

lemma num_opt_None_iff [js_num_simps]: "num_opt v = None \<longleftrightarrow> v = NaN"
  by (cases v) auto

lemma num_opt_Some_iff [js_num_simps]: "num_opt v = Some r \<longleftrightarrow> v = Num r"
  by (cases v) auto

lemma not_NaN_iff: "v \<noteq> NaN \<longleftrightarrow> (\<exists>r. v = Num r)"
  by (cases v) auto

text \<open>Generic list facts shared by the sorting and grouping proofs.\<close>

lemma filter_eq_Nil_sorted_gt:
  "sorted (map k (y # ys)) \<Longrightarrow> (a::'b::linorder) < k y \<Longrightarrow>
   filter (\<lambda>z. a = k z) (y # ys) = []"
  by (auto simp: filter_empty_conv)

text \<open>Integer division by a constant, one step at a time (calendar arithmetic).\<close>

lemma div_succ_int:
  assumes "(1::int) < k"
  shows "(n + 1) div k = n div k + (if (n + 1) mod k = 0 then 1 else 0)"
proof -
  define q where "q = n div k"
  define r where "r = n mod k"
  have n: "n = k * q + r" and r: "0 \<le> r" "r < k"
    using assms by (simp_all add: q_def r_def)
  show ?thesis
  proof (cases "r + 1 = k")
    case True
    then have "n + 1 = k * (q + 1)" using n by (simp add: algebra_simps)
    then show ?thesis using assms by (simp add: q_def)
  next
    case False
    then have r1: "r + 1 < k" using r by simp
    have e: "n + 1 = (r + 1) + q * k" using n by (simp add: algebra_simps)
    have "(n + 1) div k = q + (r + 1) div k" "(n + 1) mod k = (r + 1) mod k"
      unfolding e using assms by (simp_all only: div_mult_self1 mod_mult_self1 not_one_less_zero)
    moreover have "(r + 1) div k = 0" "(r + 1) mod k = r + 1"
      using r r1 by simp_all
    ultimately show ?thesis using r by (simp add: q_def)
  qed
qed

lemma div_succ_bounds:
  assumes "(1::int) < k"
  shows "n div k \<le> (n + 1) div k" "(n + 1) div k \<le> n div k + 1"
  using div_succ_int [OF assms, of n] by (simp_all split: if_split)

lemma succ_mod_int:
  assumes "(1::int) < p" "(q + 1) mod p \<noteq> 0"
  shows "(q + 1) mod p = q mod p + 1"
proof -
  have "(q + 1) div p = q div p"
    using div_succ_int [OF assms(1), of q] assms(2) by simp
  then have "q + 1 = p * (q div p) + (q + 1) mod p"
    by (metis mult_div_mod_eq)
  moreover have "q = p * (q div p) + q mod p"
    by simp
  ultimately show ?thesis by linarith
qed

lemma pred_mod_int:
  assumes "(1::int) < p" "q mod p \<noteq> 0"
  shows "(q - 1) mod p = q mod p - 1"
  using succ_mod_int [OF assms(1), of "q - 1"] assms(2) by simp

lemma mult_pred_div:
  assumes "(1::int) < w"
  shows "(w * q - 1) div w = q - 1"
  using div_succ_int [OF assms, of "w * q - 1"] assms by simp

end
