(* ===== verification/JsRuntime.thy ===== *)
theory JsRuntime
  imports Prelude
begin

text \<open>
  The built-ins that \<open>src/main.js\<close> calls on its data: \<open>Array.prototype.sort\<close>
  with a comparator (lines 14 and 17), \<open>d3.sum\<close> (line 16) and \<open>d3.max\<close>
  (line 48).  Each is modelled from its specification (ECMAScript 2019 and
  d3-array 1.x, the versions bundled with d3 v5, whose \<open>d3.nest\<close> the script
  uses).

  \<^item> \<open>Array.prototype.sort\<close> is required to be stable since ES2019.  For a
    consistent comparator all stable sorts return the same list, so the model
    is the stable insertion sort \<open>js_sort\<close>; \<open>SortCompare\<close> reads a \<open>NaN\<close>
    comparator result as \<open>+0\<close>.  The main lemma, \<open>js_sort_eq_sort_key\<close>, says
    that for a comparator \<open>a - b\<close> over real keys it is the library's stable
    \<open>sort_key\<close>.
  \<^item> \<open>d3.sum\<close> adds the values that are truthy (not \<open>0\<close>, not \<open>NaN\<close>).
  \<^item> \<open>d3.max\<close> returns \<open>undefined\<close> (\<open>None\<close>) when no value is comparable and
    otherwise the largest comparable value.
\<close>

fun sort_compare :: "jsnum \<Rightarrow> real" where
  "sort_compare (Num r) = r"
| "sort_compare NaN = 0"

fun insort_cmp :: "'a comparator \<Rightarrow> 'a \<Rightarrow> 'a list \<Rightarrow> 'a list" where
  "insort_cmp c x [] = [x]"
| "insort_cmp c x (y # ys) =
     (if sort_compare (c x y) < 0 then x # y # ys else y # insort_cmp c x ys)"

definition js_sort :: "'a comparator \<Rightarrow> 'a list \<Rightarrow> 'a list" where
  "js_sort c xs = foldl (\<lambda>acc x. insort_cmp c x acc) [] xs"

text \<open>A comparator computes \<open>k a - k b\<close> on a set of elements.\<close>

definition cmp_key :: "'a comparator \<Rightarrow> ('a \<Rightarrow> real) \<Rightarrow> 'a set \<Rightarrow> bool" where
  "cmp_key c k A \<longleftrightarrow> (\<forall>x\<in>A. \<forall>y\<in>A. c x y = Num (k x - k y))"

fun sum_step :: "real \<Rightarrow> jsnum \<Rightarrow> real" where
  "sum_step s (Num v) = (if v \<noteq> 0 then s + v else s)"
| "sum_step s NaN = s"

definition d3_sum :: "('a \<Rightarrow> jsnum) \<Rightarrow> 'a list \<Rightarrow> real" where
  "d3_sum f xs = foldl (\<lambda>s x. sum_step s (f x)) 0 xs"

fun max_step :: "real option \<Rightarrow> real option \<Rightarrow> real option" where
  "max_step None v = v"
| "max_step (Some m) None = Some m"
| "max_step (Some m) (Some v) = (if v > m then Some v else Some m)"

definition d3_max :: "('a \<Rightarrow> real option) \<Rightarrow> 'a list \<Rightarrow> real option" where
  "d3_max f xs = foldl (\<lambda>m x. max_step m (f x)) None xs"

subsection \<open>Sorting\<close>

lemma mset_insort_cmp [simp]: "mset (insort_cmp c x ys) = add_mset x (mset ys)"
  by (induction ys) auto

lemma set_insort_cmp [simp]: "set (insort_cmp c x ys) = insert x (set ys)"
  by (metis mset_insort_cmp set_mset_add_mset_insert set_mset_mset)

lemma mset_foldl_insort_cmp:
  "mset (foldl (\<lambda>acc x. insort_cmp c x acc) acc xs) = mset acc + mset xs"
  by (induction xs arbitrary: acc) auto

lemma mset_js_sort [simp]: "mset (js_sort c xs) = mset xs"
  by (simp add: js_sort_def mset_foldl_insort_cmp)

lemma set_js_sort [simp]: "set (js_sort c xs) = set xs"
  by (metis mset_js_sort set_mset_mset)

lemma length_js_sort [simp]: "length (js_sort c xs) = length xs"
  by (metis mset_js_sort size_mset)

lemma js_sort_Nil_iff [simp]: "js_sort c xs = [] \<longleftrightarrow> xs = []"
  by (metis length_0_conv length_js_sort)

lemma cmp_key_subset: "cmp_key c k A \<Longrightarrow> B \<subseteq> A \<Longrightarrow> cmp_key c k B"
  unfolding cmp_key_def by blast

lemma cmp_key_less:
  "cmp_key c k A \<Longrightarrow> x \<in> A \<Longrightarrow> y \<in> A \<Longrightarrow> sort_compare (c x y) < 0 \<longleftrightarrow> k x < k y"
  unfolding cmp_key_def by auto

lemma sorted_insort_cmp:
  assumes "cmp_key c k (insert x (set ys))" and "sorted (map k ys)"
  shows "sorted (map k (insort_cmp c x ys))"
  using assms
proof (induction ys)
  case Nil
  then show ?case by simp
next
  case (Cons y ys)
  have lt: "sort_compare (c x y) < 0 \<longleftrightarrow> k x < k y"
    using Cons.prems(1) by (rule cmp_key_less) auto
  have "cmp_key c k (insert x (set ys))"
    using Cons.prems(1) by (rule cmp_key_subset) auto
  then have IH: "sorted (map k (insort_cmp c x ys))"
    using Cons.prems(2) by (intro Cons.IH) auto
  show ?case
    using Cons.prems(2) lt IH by auto
qed

lemma filter_insort_cmp:
  assumes "cmp_key c k (insert x (set ys))" and "sorted (map k ys)"
  shows "filter (\<lambda>z. a = k z) (insort_cmp c x ys) =
         filter (\<lambda>z. a = k z) ys @ (if a = k x then [x] else [])"
  using assms
proof (induction ys)
  case Nil
  then show ?case by simp
next
  case (Cons y ys)
  have lt: "sort_compare (c x y) < 0 \<longleftrightarrow> k x < k y"
    using Cons.prems(1) by (rule cmp_key_less) auto
  show ?case
  proof (cases "k x < k y")
    case True
    then have "a = k x \<Longrightarrow> filter (\<lambda>z. a = k z) (y # ys) = []"
      using Cons.prems(2) filter_eq_Nil_sorted_gt [of k y ys a] by simp
    with True lt show ?thesis by auto
  next
    case False
    have "cmp_key c k (insert x (set ys))"
      using Cons.prems(1) by (rule cmp_key_subset) auto
    then have IH: "filter (\<lambda>z. a = k z) (insort_cmp c x ys) =
          filter (\<lambda>z. a = k z) ys @ (if a = k x then [x] else [])"
      using Cons.prems(2) by (intro Cons.IH) auto
    have eq: "insort_cmp c x (y # ys) = y # insort_cmp c x ys"
      using False lt by simp
    show ?thesis
      unfolding eq filter.simps(2) IH by (cases "a = k y") simp_all
  qed
qed

lemma foldl_insort_cmp_sorted_stable:
  assumes "cmp_key c k (set acc \<union> set xs)" and "sorted (map k acc)"
  shows "sorted (map k (foldl (\<lambda>acc x. insort_cmp c x acc) acc xs)) \<and>
         filter (\<lambda>z. a = k z) (foldl (\<lambda>acc x. insort_cmp c x acc) acc xs) =
         filter (\<lambda>z. a = k z) acc @ filter (\<lambda>z. a = k z) xs"
  using assms
proof (induction xs arbitrary: acc)
  case Nil
  then show ?case by simp
next
  case (Cons x xs)
  have ck: "cmp_key c k (insert x (set acc))"
    using Cons.prems(1) by (rule cmp_key_subset) auto
  have "cmp_key c k (set (insort_cmp c x acc) \<union> set xs)"
    using Cons.prems(1) by (rule cmp_key_subset) auto
  moreover have "sorted (map k (insort_cmp c x acc))"
    using ck Cons.prems(2) by (rule sorted_insort_cmp)
  ultimately have IH:
    "sorted (map k (foldl (\<lambda>acc x. insort_cmp c x acc) (insort_cmp c x acc) xs)) \<and>
     filter (\<lambda>z. a = k z) (foldl (\<lambda>acc x. insort_cmp c x acc) (insort_cmp c x acc) xs) =
     filter (\<lambda>z. a = k z) (insort_cmp c x acc) @ filter (\<lambda>z. a = k z) xs"
    by (rule Cons.IH)
  show ?case
    using IH filter_insort_cmp [OF ck Cons.prems(2), of a] by simp
qed

lemma js_sort_sorted_stable:
  assumes "cmp_key c k (set xs)"
  shows "sorted (map k (js_sort c xs)) \<and>
         filter (\<lambda>z. a = k z) (js_sort c xs) = filter (\<lambda>z. a = k z) xs"
  using foldl_insort_cmp_sorted_stable [of c k "[]" xs a] assms
  by (simp add: js_sort_def)

text \<open>
  The comparator-based sort is the library's stable sort on the key: the
  optimised-against-reference equivalence every use of \<open>.sort\<close> in the
  script goes through.
\<close>

lemma js_sort_eq_sort_key:
  assumes "cmp_key c k (set xs)"
  shows "js_sort c xs = sort_key k xs"
proof (rule properties_for_sort_key [symmetric])
  show "mset (js_sort c xs) = mset xs" by simp
  show "sorted (map k (js_sort c xs))"
    using js_sort_sorted_stable [OF assms] by blast
  fix a
  show "filter (\<lambda>x. k a = k x) (js_sort c xs) = filter (\<lambda>x. k a = k x) xs"
    using js_sort_sorted_stable [OF assms, of "k a"] by blast
qed

subsection \<open>d3.sum and d3.max\<close>

lemma sum_step_eq: "sum_step s v = s + finite_part v"
  by (cases v) auto

lemma foldl_sum_step:
  "foldl (\<lambda>s x. sum_step s (f x)) s0 xs = s0 + sum_list (map (finite_part \<circ> f) xs)"
  by (induction xs arbitrary: s0) (simp_all add: sum_step_eq)

lemma d3_sum_eq: "d3_sum f xs = sum_list (map (finite_part \<circ> f) xs)"
  by (simp add: d3_sum_def foldl_sum_step)

lemma d3_sum_append: "d3_sum f (xs @ ys) = d3_sum f xs + d3_sum f ys"
  by (simp add: d3_sum_eq)

lemma d3_sum_mset_cong: "mset xs = mset ys \<Longrightarrow> d3_sum f xs = d3_sum f ys"
  unfolding d3_sum_eq
  by (metis mset_map sum_mset_sum_list)

lemma max_step_eq_max: "max_step a b = max a b"
  by (cases a; cases b) (auto simp: max_def)

lemma foldl_max_step_fold:
  "foldl (\<lambda>m x. max_step m (f x)) m0 xs = fold max (map f xs) m0"
  by (induction xs arbitrary: m0) (simp_all add: max_step_eq_max max.commute)

text \<open>\<open>d3.max\<close> is the maximum in the order of \<open>Option_ord\<close>, where
  \<open>None\<close> (undefined) lies below every number.\<close>

lemma d3_max_eq: "d3_max f xs = Max (insert None (f ` set xs))"
  using Max.set_eq_fold [of None "map f xs"]
  by (simp add: d3_max_def foldl_max_step_fold)

lemma d3_max_None_iff: "d3_max f xs = None \<longleftrightarrow> (\<forall>x\<in>set xs. f x = None)"
  unfolding d3_max_eq by (auto simp: Max_eq_iff dest: less_eq_option_None_is_None)

lemma d3_max_Some:
  assumes "d3_max f xs = Some m"
  shows "(\<exists>x\<in>set xs. f x = Some m) \<and> (\<forall>x\<in>set xs. \<forall>r. f x = Some r \<longrightarrow> r \<le> m)"
proof -
  have mx: "Max (insert None (f ` set xs)) = Some m"
    using assms by (simp add: d3_max_eq)
  then have "Some m \<in> insert None (f ` set xs)"
    by (metis Max_in finite_imageI finite_insert finite_set insert_not_empty)
  moreover have "\<forall>x\<in>set xs. f x \<le> Some m"
    using mx by (metis Max_ge finite_imageI finite_insert finite_set image_eqI insertI2)
  ultimately show ?thesis
    by (metis image_iff insertE less_eq_option_Some option.distinct(1))
qed

end
