(* ===== verification/Aggregate.thy ===== *)
theory Aggregate
  imports JsRuntime
begin

text \<open>
  The data-processing block of \<open>src/main.js\<close> (lines 5--17): every CSV row
  becomes a record \<open>{name, date, value}\<close> (\<open>transform_row\<close>,
  \<open>csv_transformed\<close>); \<open>d3.nest().key(d => d.name)\<close> groups the records by
  name in order of first appearance (\<open>nest_add\<close>, \<open>nest_map\<close>), sorting each
  group with the comparator \<open>a.date - b.date\<close> (\<open>nest_entries\<close>,
  \<open>date_cmp\<close>); each group gets the field \<open>sum\<close> (\<open>with_sum\<close>) and the
  groups are sorted by \<open>b.sum - a.sum\<close> (\<open>sum_cmp\<close>, \<open>aggregate\<close>).

  \<open>ToNumber\<close> on the CSV strings is a parameter (\<open>to_number\<close>): the theorems
  hold for any conversion.  \<open>aggregate_spec\<close> is the abstract specification
  of the block, written with the library's \<open>filter\<close>, \<open>sort_key\<close> and
  \<open>remdups\<close>; the refinement theorem below shows that the code computes it
  whenever every date is a number.
\<close>

record csv_row =
  row_name :: string
  row_date :: string
  row_total_1 :: string
  row_total_2 :: string

record datum =
  name :: string
  date :: jsnum
  value_num :: jsnum

type_synonym to_number = "string \<Rightarrow> jsnum"

definition transform_row :: "to_number \<Rightarrow> csv_row \<Rightarrow> datum" where
  "transform_row tonum d =
     \<lparr>name = row_name d,
      date = js_mul (tonum (row_date d)) (Num 1000),
      value_num = js_add (tonum (row_total_1 d)) (tonum (row_total_2 d))\<rparr>"

definition csv_transformed :: "to_number \<Rightarrow> csv_row list \<Rightarrow> datum list" where
  "csv_transformed tonum csv = map (transform_row tonum) csv"

text \<open>
  \<open>d3.nest\<close> keeps a map from key to the array of values with that key; a new
  key is appended (d3's map iterates keys in insertion order), an existing key
  gets the value pushed onto its array.
\<close>

fun nest_add :: "string \<Rightarrow> 'a \<Rightarrow> (string \<times> 'a list) list \<Rightarrow> (string \<times> 'a list) list" where
  "nest_add k v [] = [(k, [v])]"
| "nest_add k v ((k', vs) # m) =
     (if k = k' then (k', vs @ [v]) # m else (k', vs) # nest_add k v m)"

definition nest_map :: "('a \<Rightarrow> string) \<Rightarrow> 'a list \<Rightarrow> (string \<times> 'a list) list" where
  "nest_map keyf xs = foldl (\<lambda>m x. nest_add (keyf x) x m) [] xs"

record nest_entry =
  key :: string
  values_list :: "datum list"

definition nest_entries :: "(datum \<Rightarrow> string) \<Rightarrow> datum comparator \<Rightarrow> datum list \<Rightarrow> nest_entry list" where
  "nest_entries keyf sortv xs =
     map (\<lambda>(k, vs). \<lparr>key = k, values_list = js_sort sortv vs\<rparr>) (nest_map keyf xs)"

definition date_cmp :: "datum comparator" where
  "date_cmp a b = js_sub (date a) (date b)"

record series = nest_entry +
  sum_num :: real

definition with_sum :: "nest_entry \<Rightarrow> series" where
  "with_sum d =
     \<lparr>key = key d, values_list = values_list d, sum_num = d3_sum value_num (values_list d)\<rparr>"

definition sum_cmp :: "series comparator" where
  "sum_cmp a b = js_sub (Num (sum_num b)) (Num (sum_num a))"

definition aggregate :: "to_number \<Rightarrow> csv_row list \<Rightarrow> series list" where
  "aggregate tonum csv =
     js_sort sum_cmp (map with_sum (nest_entries name date_cmp (csv_transformed tonum csv)))"

text \<open>Abstract specification: keys in order of first appearance, each group
  the records of that name stably sorted by date, groups stably sorted by
  decreasing sum.\<close>

definition first_keys :: "string list \<Rightarrow> string list" where
  "first_keys ks = rev (remdups (rev ks))"

definition date_key :: "datum \<Rightarrow> real" where
  "date_key d = finite_part (date d)"

definition group_spec :: "datum list \<Rightarrow> string \<Rightarrow> series" where
  "group_spec ds k =
     (let vs = sort_key date_key (filter (\<lambda>d. name d = k) ds)
      in \<lparr>key = k, values_list = vs, sum_num = sum_list (map (finite_part \<circ> value_num) vs)\<rparr>)"

definition aggregate_spec :: "datum list \<Rightarrow> series list" where
  "aggregate_spec ds = sort_key (\<lambda>s. - sum_num s) (map (group_spec ds) (first_keys (map name ds)))"

text \<open>\<open>ToNumber\<close> on non-empty strings of decimal digits (where it is the
  decimal value) and the rows of the example in the specification, used to run
  the model on concrete input.\<close>

definition decimal_number :: "string \<Rightarrow> jsnum" where
  "decimal_number s =
     (if s \<noteq> [] \<and> list_all (\<lambda>c. 48 \<le> (of_char c :: nat) \<and> (of_char c :: nat) \<le> 57) s
      then Num (of_nat (foldl (\<lambda>n c. 10 * n + (of_char c - 48)) 0 s)) else NaN)"
definition example_rows :: "csv_row list" where
  "example_rows =
     [\<lparr>row_name = ''A'', row_date = ''0'', row_total_1 = ''1'', row_total_2 = ''2''\<rparr>,
      \<lparr>row_name = ''A'', row_date = ''1'', row_total_1 = ''3'', row_total_2 = ''4''\<rparr>,
      \<lparr>row_name = ''B'', row_date = ''0'', row_total_1 = ''10'', row_total_2 = ''0''\<rparr>]"

subsection \<open>Grouping\<close>

lemma first_keys_snoc:
  "first_keys (ks @ [k]) = (if k \<in> set ks then first_keys ks else first_keys ks @ [k])"
  by (simp add: first_keys_def)

lemma distinct_first_keys: "distinct (first_keys ks)"
  by (simp add: first_keys_def)

lemma set_first_keys [simp]: "set (first_keys ks) = set ks"
  by (simp add: first_keys_def)

lemma nest_add_map:
  assumes "distinct ks"
  shows "nest_add k v (map (\<lambda>k'. (k', g k')) ks) =
         (if k \<in> set ks then map (\<lambda>k'. (k', if k' = k then g k' @ [v] else g k')) ks
          else map (\<lambda>k'. (k', g k')) ks @ [(k, [v])])"
  using assms by (induction ks) auto

lemma nest_map_snoc:
  "nest_map f (xs @ [x]) = nest_add (f x) x (nest_map f xs)"
  by (simp add: nest_map_def)

text \<open>The grouping loop computes, for each key in order of first appearance,
  the records with that key in input order.\<close>

lemma nest_map_eq:
  "nest_map f xs = map (\<lambda>k. (k, filter (\<lambda>x. f x = k) xs)) (first_keys (map f xs))"
proof (induction xs rule: rev_induct)
  case Nil
  then show ?case by (simp add: nest_map_def first_keys_def)
next
  case (snoc x xs)
  have d: "distinct (first_keys (map f xs))" by (rule distinct_first_keys)
  show ?case
    unfolding nest_map_snoc snoc.IH nest_add_map [OF d]
    by (auto simp: first_keys_snoc filter_empty_conv image_iff intro!: map_cong)
qed

lemma nest_entries_eq:
  "nest_entries f c xs =
     map (\<lambda>k. \<lparr>key = k, values_list = js_sort c (filter (\<lambda>x. f x = k) xs)\<rparr>) (first_keys (map f xs))"
  by (simp add: nest_entries_def nest_map_eq)

lemma map_key_nest_entries: "map key (nest_entries f c xs) = first_keys (map f xs)"
  by (simp add: nest_entries_eq comp_def)

subsection \<open>Sorting the groups\<close>

lemma cmp_key_sum_cmp: "cmp_key sum_cmp (\<lambda>s. - sum_num s) A"
  by (simp add: cmp_key_def sum_cmp_def)

lemma aggregate_sort_key:
  "aggregate tonum csv =
     sort_key (\<lambda>s. - sum_num s) (map with_sum (nest_entries name date_cmp (csv_transformed tonum csv)))"
  unfolding aggregate_def by (rule js_sort_eq_sort_key [OF cmp_key_sum_cmp])

lemma cmp_key_date_cmp:
  "\<forall>d\<in>A. date d \<noteq> NaN \<Longrightarrow> cmp_key date_cmp date_key A"
  unfolding cmp_key_def
proof (intro ballI)
  fix x y assume "\<forall>d\<in>A. date d \<noteq> NaN" "x \<in> A" "y \<in> A"
  then obtain a b where "date x = Num a" "date y = Num b"
    by (meson not_NaN_iff)
  then show "date_cmp x y = Num (date_key x - date_key y)"
    by (simp add: date_cmp_def date_key_def)
qed

lemma set_aggregate:
  "set (aggregate tonum csv) = with_sum ` set (nest_entries name date_cmp (csv_transformed tonum csv))"
  by (simp add: aggregate_def)

lemma mem_aggregate:
  "s \<in> set (aggregate tonum csv) \<longleftrightarrow>
   (\<exists>k\<in>set (map name (csv_transformed tonum csv)).
      s = with_sum \<lparr>key = k, values_list = js_sort date_cmp
                       (filter (\<lambda>d. name d = k) (csv_transformed tonum csv))\<rparr>)"
  by (auto simp: set_aggregate nest_entries_eq)

lemma key_with_sum [simp]: "key (with_sum e) = key e"
  and values_with_sum [simp]: "values_list (with_sum e) = values_list e"
  and sum_with_sum [simp]: "sum_num (with_sum e) = d3_sum value_num (values_list e)"
  by (simp_all add: with_sum_def)


lemma mset_concat_map: "mset (concat (map g ks)) = (\<Sum>k\<leftarrow>ks. mset (g k))"
  by (induction ks) auto

lemma mset_concat_map_perm:
  "mset ys = mset xs \<Longrightarrow> mset (concat (map g ys)) = mset (concat (map g xs))"
  unfolding mset_concat_map by (metis mset_map sum_mset_sum_list)

lemma filter_mset_add_mset_key:
  "filter_mset (\<lambda>y. f y = k) (add_mset x M) =
   (if f x = k then {#x#} else {#}) + filter_mset (\<lambda>y. f y = k) M"
  by simp

lemma sum_filter_mset_keys:
  "finite K \<Longrightarrow> f ` set_mset M \<subseteq> K \<Longrightarrow> (\<Sum>k\<in>K. filter_mset (\<lambda>x. f x = k) M) = M"
proof (induction M)
  case empty
  then show ?case by simp
next
  case (add x M)
  have "(\<Sum>k\<in>K. filter_mset (\<lambda>y. f y = k) (add_mset x M)) =
        (\<Sum>k\<in>K. (if f x = k then {#x#} else {#})) + (\<Sum>k\<in>K. filter_mset (\<lambda>y. f y = k) M)"
    unfolding filter_mset_add_mset_key by (rule sum.distrib)
  also have "\<dots> = {#x#} + M"
    using add by (simp add: sum.delta)
  finally show ?case by simp
qed

lemma mset_concat_filter_keys:
  "distinct ks \<Longrightarrow> set (map f xs) \<subseteq> set ks \<Longrightarrow>
   mset (concat (map (\<lambda>k. filter (\<lambda>x. f x = k) xs) ks)) = mset xs"
  by (simp add: mset_concat_map sum_list_distinct_conv_sum_set sum_filter_mset_keys)

lemma aggregate_eq:
  "aggregate tonum csv =
     sort_key (\<lambda>s. - sum_num s)
       (map (\<lambda>k. with_sum \<lparr>key = k, values_list = js_sort date_cmp
                  (filter (\<lambda>d. name d = k) (csv_transformed tonum csv))\<rparr>)
            (first_keys (map name (csv_transformed tonum csv))))"
  by (simp add: aggregate_sort_key nest_entries_eq comp_def)

lemma with_sum_group_spec:
  assumes "\<forall>d\<in>set D. date d \<noteq> NaN"
  shows "with_sum \<lparr>key = k, values_list = js_sort date_cmp (filter (\<lambda>d. name d = k) D)\<rparr> =
         group_spec D k"
proof -
  have "cmp_key date_cmp date_key (set (filter (\<lambda>d. name d = k) D))"
    using assms by (intro cmp_key_date_cmp) auto
  then have "js_sort date_cmp (filter (\<lambda>d. name d = k) D) = sort_key date_key (filter (\<lambda>d. name d = k) D)"
    by (rule js_sort_eq_sort_key)
  then show ?thesis
    by (simp add: with_sum_def group_spec_def d3_sum_eq Let_def)
qed

lemma sum_num_group:
  "sum_num (with_sum \<lparr>key = k, values_list = js_sort c (filter (\<lambda>d. name d = k) D)\<rparr>) =
   d3_sum value_num (filter (\<lambda>d. name d = k) D)"
  by (simp add: d3_sum_mset_cong [of "js_sort c _"])

lemmas aggregate_eval = aggregate_def csv_transformed_def transform_row_def nest_entries_def
  nest_map_def js_sort_def date_cmp_def sum_cmp_def with_sum_def d3_sum_def decimal_number_def


lemma mset_map_key_aggregate:
  "mset (map key (aggregate tonum csv)) = mset (first_keys (map name (csv_transformed tonum csv)))"
proof -
  let ?K = "first_keys (map name (csv_transformed tonum csv))"
  let ?h = "\<lambda>k. with_sum \<lparr>key = k, values_list = js_sort date_cmp
                  (filter (\<lambda>d. name d = k) (csv_transformed tonum csv))\<rparr>"
  have "mset (map key (aggregate tonum csv)) = image_mset key (mset (map ?h ?K))"
    unfolding aggregate_eq by (simp only: mset_map mset_sort)
  also have "\<dots> = mset (map key (map ?h ?K))"
    by (simp only: mset_map)
  also have "\<dots> = mset ?K"
    by (simp add: comp_def)
  finally show ?thesis .
qed

lemma distinct_map_key_aggregate: "distinct (map key (aggregate tonum csv))"
  using mset_eq_imp_distinct_iff [OF mset_map_key_aggregate] distinct_first_keys by blast

subsection \<open>Properties of the data processing\<close>


text \<open>C1: when every date converts to a number, the processed data are exactly the abstract specification: one series per name in order of first appearance, its records stably sorted by date, its sum the sum of their values, the series stably sorted by decreasing sum.\<close>

theorem aggregate_refines_spec:
  assumes "\<forall>d\<in>set (csv_transformed tonum csv). date d \<noteq> NaN"
  shows "aggregate tonum csv = aggregate_spec (csv_transformed tonum csv)"
  unfolding aggregate_eq aggregate_spec_def with_sum_group_spec [OF assms] ..


text \<open>C2: when every date is a number, the records of each series are sorted by ascending date.\<close>

theorem aggregate_values_sorted:
  assumes "\<forall>d\<in>set (csv_transformed tonum csv). date d \<noteq> NaN"
    and "s \<in> set (aggregate tonum csv)"
  shows "sorted (map date_key (values_list s))"
proof -
  obtain k where s: "s = with_sum \<lparr>key = k, values_list = js_sort date_cmp
                       (filter (\<lambda>d. name d = k) (csv_transformed tonum csv))\<rparr>"
    using assms(2) by (auto simp: mem_aggregate)
  have "cmp_key date_cmp date_key (set (filter (\<lambda>d. name d = k) (csv_transformed tonum csv)))"
    using assms(1) by (intro cmp_key_date_cmp) auto
  then have "sorted (map date_key (js_sort date_cmp (filter (\<lambda>d. name d = k) (csv_transformed tonum csv))))"
    by (rule js_sort_sorted_stable [THEN conjunct1])
  with s show ?thesis by simp
qed


text \<open>C3: grouping preserves every input record exactly once across all series.\<close>

theorem aggregate_partition:
  "mset (concat (map values_list (aggregate tonum csv))) = mset (csv_transformed tonum csv)"
proof -
  let ?D = "csv_transformed tonum csv"
  have "mset (concat (map values_list (aggregate tonum csv))) =
        mset (concat (map (\<lambda>k. js_sort date_cmp (filter (\<lambda>d. name d = k) ?D)) (first_keys (map name ?D))))"
    unfolding aggregate_eq by (subst mset_concat_map_perm [OF mset_sort]) (simp add: comp_def)
  also have "\<dots> = mset (concat (map (\<lambda>k. filter (\<lambda>d. name d = k) ?D) (first_keys (map name ?D))))"
    by (simp add: mset_concat_map)
  also have "\<dots> = mset ?D"
    by (rule mset_concat_filter_keys) (simp_all add: distinct_first_keys)
  finally show ?thesis .
qed


text \<open>C5: the sum attached to a series is the arithmetic sum of the values of the input records with its name, a value that is NaN counting as nothing.\<close>

theorem aggregate_sum_correct:
  assumes "s \<in> set (aggregate tonum csv)"
  shows "sum_num s = sum_list (map (finite_part \<circ> value_num)
                       (filter (\<lambda>d. name d = key s) (csv_transformed tonum csv)))"
  using assms by (auto simp: mem_aggregate sum_num_group d3_sum_eq simp del: sum_with_sum)


text \<open>C4: the series are ordered by non-increasing sum.\<close>

theorem aggregate_sorted_by_sum:
  "sorted_wrt (\<ge>) (map sum_num (aggregate tonum csv))"
proof -
  have "sorted (map (\<lambda>s. - sum_num s) (aggregate tonum csv))"
    unfolding aggregate_sort_key by (rule sorted_sort_key)
  then show ?thesis by (simp add: sorted_wrt_map)
qed


text \<open>C6: the series keys are distinct and are exactly the names that occur in the input.\<close>

theorem aggregate_keys:
  "distinct (map key (aggregate tonum csv)) \<and>
   set (map key (aggregate tonum csv)) = set (map name (csv_transformed tonum csv))"
proof -
  have "set (map key (aggregate tonum csv)) = set (first_keys (map name (csv_transformed tonum csv)))"
    using arg_cong [OF mset_map_key_aggregate, of set_mset] by simp
  then show ?thesis using distinct_map_key_aggregate by simp
qed

text \<open>C7: series with equal sums keep the order in which their names first appear in the input (the sort is stable).\<close>

theorem aggregate_ties_first_appearance:
  "map key (filter (\<lambda>s. sum_num s = v) (aggregate tonum csv)) =
   filter (\<lambda>k. d3_sum value_num (filter (\<lambda>d. name d = k) (csv_transformed tonum csv)) = v)
          (first_keys (map name (csv_transformed tonum csv)))"
proof -
  let ?D = "csv_transformed tonum csv"
  let ?L = "map (\<lambda>k. with_sum \<lparr>key = k, values_list = js_sort date_cmp
                  (filter (\<lambda>d. name d = k) ?D)\<rparr>) (first_keys (map name ?D))"
  have "filter (\<lambda>s. sum_num s = v) (aggregate tonum csv) = filter (\<lambda>s. - sum_num s = - v) (sort_key (\<lambda>s. - sum_num s) ?L)"
    unfolding aggregate_eq by simp
  also have "\<dots> = filter (\<lambda>s. sum_num s = v) ?L"
    by (simp only: sort_key_stable) simp
  finally show ?thesis
    by (simp add: comp_def sum_num_group filter_map del: sum_with_sum)
qed


text \<open>C8: a record's value is a number exactly when both CSV totals convert to numbers, and it is then their sum.\<close>

theorem transform_row_value:
  "value_num (transform_row tonum r) = Num v \<longleftrightarrow>
   (\<exists>a b. tonum (row_total_1 r) = Num a \<and> tonum (row_total_2 r) = Num b \<and> v = a + b)"
  by (simp add: transform_row_def js_add_Num_iff)


text \<open>On the example of the specification both series have sum 10 and A, which appears first, comes first; each series is sorted by date.\<close>

theorem aggregate_spec_example:
  "aggregate decimal_number example_rows =
     [\<lparr>key = ''A'', values_list = [\<lparr>name = ''A'', date = Num 0, value_num = Num 3\<rparr>,
                                   \<lparr>name = ''A'', date = Num 1000, value_num = Num 7\<rparr>], sum_num = 10\<rparr>,
      \<lparr>key = ''B'', values_list = [\<lparr>name = ''B'', date = Num 0, value_num = Num 10\<rparr>], sum_num = 10\<rparr>]"
  by (simp add: example_rows_def aggregate_eval)


theorem aggregate_refines_spec_witness:
  "list_all (\<lambda>d. date d \<noteq> NaN) (csv_transformed decimal_number example_rows) \<and>
   aggregate decimal_number example_rows = aggregate_spec (csv_transformed decimal_number example_rows)"
proof -
  have h: "list_all (\<lambda>d. date d \<noteq> NaN) (csv_transformed decimal_number example_rows)"
    by (simp add: example_rows_def csv_transformed_def transform_row_def decimal_number_def)
  show ?thesis using h aggregate_refines_spec [OF h [unfolded list_all_iff]] by simp
qed

theorem aggregate_values_sorted_witness:
  "list_all (\<lambda>d. date d \<noteq> NaN) (csv_transformed decimal_number example_rows) \<and>
   hd (aggregate decimal_number example_rows) \<in> set (aggregate decimal_number example_rows) \<and>
   sorted (map date_key (values_list (hd (aggregate decimal_number example_rows))))"
proof -
  have h0: "list_all (\<lambda>d. date d \<noteq> NaN) (csv_transformed decimal_number example_rows)"
    by (simp add: example_rows_def aggregate_eval)
  note h1 = h0 [unfolded list_all_iff]
  have h2: "hd (aggregate decimal_number example_rows) \<in> set (aggregate decimal_number example_rows)"
    by (simp add: example_rows_def aggregate_eval)
  show ?thesis using h0 h2 aggregate_values_sorted [OF h1 h2] by simp
qed

theorem aggregate_sum_correct_witness:
  "last (aggregate decimal_number example_rows) \<in> set (aggregate decimal_number example_rows) \<and>
   sum_num (last (aggregate decimal_number example_rows)) =
   sum_list (map (finite_part \<circ> value_num) (filter (\<lambda>d. name d = key (last (aggregate decimal_number example_rows)))
     (csv_transformed decimal_number example_rows)))"
proof -
  have h: "last (aggregate decimal_number example_rows) \<in> set (aggregate decimal_number example_rows)"
    by (simp add: example_rows_def aggregate_eval)
  show ?thesis using h aggregate_sum_correct [OF h] by simp
qed

end
