(* ===== verification/Scales.thy ===== *)
theory Scales
  imports Aggregate
begin

text \<open>
  Chart geometry and scales, \<open>src/main.js\<close> lines 22--62.  The constants
  \<open>step\<close>, \<open>yRangeMax\<close> and \<open>margin\<close>; the derived sizes \<open>width\<close>,
  \<open>height\<close>, \<open>svgHeight\<close> (\<open>chart_width\<close>, \<open>chart_height\<close>,
  \<open>svg_height\<close>); the linear scales of d3-scale 2.2 (\<open>normalize\<close>,
  \<open>interpolate_number\<close>, \<open>scale_linear\<close>: the two-point \<open>bimap\<close>), the
  piecewise colour scale (\<open>bisect_right\<close>, \<open>polymap_rgb\<close>) with the palette
  parsed as d3-color parses \<open>#rgb\<close> (\<open>parse_hex3\<close>), the colour domain
  (\<open>color_domain\<close>) and the whole set-up block as one fallible function
  (\<open>setup_chart\<close>): with no data, \<open>data[0].values\<close> on line 41 throws a
  \<open>TypeError\<close>, the \<open>Inl\<close> branch of the model.

  A scale applied to \<open>NaN\<close> returns d3's \<open>unknown\<close> (undefined); the model
  writes it \<open>NaN\<close>, as both give an invalid coordinate.  A degenerate domain
  (both ends equal) maps every number to the middle of the range, as
  d3-scale 2.2 does.
\<close>

definition step :: real where
  "step = 15"

definition y_range_max :: real where
  "y_range_max = 75"

record margins =
  margin_top :: real
  margin_right :: real
  margin_bottom :: real
  margin_left :: real

definition margin :: margins where
  "margin = \<lparr>margin_top = 0, margin_right = 16, margin_bottom = 32, margin_left = 112\<rparr>"

definition chart_width :: "real \<Rightarrow> real" where
  "chart_width svg_width = svg_width - margin_left margin - margin_right margin"

definition chart_height :: "nat \<Rightarrow> real" where
  "chart_height n = (real n - 1) * step + y_range_max"

definition svg_height :: "nat \<Rightarrow> real" where
  "svg_height n = chart_height n + margin_top margin + margin_bottom margin"

text \<open>The vertical offset of row \<open>i\<close> (lines 126 and 174).\<close>

definition row_offset :: "nat \<Rightarrow> real" where
  "row_offset i = real i * step + y_range_max"

subsection \<open>Continuous scales\<close>

definition normalize_real :: "real \<Rightarrow> real \<Rightarrow> real \<Rightarrow> real" where
  "normalize_real a b x = (if b - a \<noteq> 0 then (x - a) / (b - a) else 1 / 2)"

fun normalize :: "jsnum \<Rightarrow> jsnum \<Rightarrow> jsnum \<Rightarrow> jsnum" where
  "normalize (Num a) (Num b) (Num x) = Num (normalize_real a b x)"
| "normalize _ _ _ = NaN"

definition interpolate_number :: "real \<Rightarrow> real \<Rightarrow> real \<Rightarrow> real" where
  "interpolate_number a b t = a * (1 - t) + b * t"

definition scale_linear :: "jsnum \<times> jsnum \<Rightarrow> real \<times> real \<Rightarrow> jsnum \<Rightarrow> jsnum" where
  "scale_linear dm rg x =
     (case (dm, rg) of ((d0, d1), (r0, r1)) \<Rightarrow>
        if js_less d1 d0 then num_map (interpolate_number r1 r0) (normalize d1 d0 x)
        else num_map (interpolate_number r0 r1) (normalize d0 d1 x))"

text \<open>d3-array's \<open>bisectRight\<close> with the ascending comparator.\<close>

function bisect_right :: "real list \<Rightarrow> real \<Rightarrow> nat \<Rightarrow> nat \<Rightarrow> nat" where
  "bisect_right a x lo hi =
     (if lo < hi then
        (let mid = (lo + hi) div 2 in
         if x < a ! mid then bisect_right a x lo mid else bisect_right a x (Suc mid) hi)
      else lo)"
  by pat_completeness auto
termination
  by (relation "measure (\<lambda>(a, x, lo, hi). hi - lo)") auto

subsection \<open>Colours\<close>

record rgb =
  rgb_r :: real
  rgb_g :: real
  rgb_b :: real

definition hex_digit :: "char \<Rightarrow> nat option" where
  "hex_digit c =
     (let n = (of_char c :: nat) in
      if 48 \<le> n \<and> n \<le> 57 then Some (n - 48)
      else if 97 \<le> n \<and> n \<le> 102 then Some (n - 87)
      else if 65 \<le> n \<and> n \<le> 70 then Some (n - 55)
      else None)"

definition parse_hex3 :: "string \<Rightarrow> rgb option" where
  "parse_hex3 s =
     (case s of
        [h, a, b, c] \<Rightarrow>
          (if h = CHR ''#'' then
             (case (hex_digit a, hex_digit b, hex_digit c) of
                (Some x, Some y, Some z) \<Rightarrow>
                  Some \<lparr>rgb_r = 17 * real x, rgb_g = 17 * real y, rgb_b = 17 * real z\<rparr>
              | _ \<Rightarrow> None)
           else None)
      | _ \<Rightarrow> None)"

definition color_range :: "string list" where
  "color_range = [''#FA6'', ''#D65'', ''#936'', ''#525'']"

definition palette :: "rgb list" where
  "palette = map (\<lambda>s. case parse_hex3 s of Some c \<Rightarrow> c | None \<Rightarrow> \<lparr>rgb_r = 0, rgb_g = 0, rgb_b = 0\<rparr>) color_range"

definition channel_interp :: "real \<Rightarrow> real \<Rightarrow> real \<Rightarrow> real" where
  "channel_interp a b t = (if b - a \<noteq> 0 then a + t * (b - a) else a)"

definition interpolate_rgb :: "rgb \<Rightarrow> rgb \<Rightarrow> real \<Rightarrow> rgb" where
  "interpolate_rgb a b t =
     \<lparr>rgb_r = channel_interp (rgb_r a) (rgb_r b) t,
      rgb_g = channel_interp (rgb_g a) (rgb_g b) t,
      rgb_b = channel_interp (rgb_b a) (rgb_b b) t\<rparr>"

definition polymap_rgb :: "real list \<Rightarrow> rgb list \<Rightarrow> real \<Rightarrow> rgb" where
  "polymap_rgb dm rg x =
     (let j = min (length dm) (length rg) - 1;
          (dm', rg') = (if dm ! j < dm ! 0 then (rev dm, rev rg) else (dm, rg));
          i = bisect_right dm' x 1 j - 1
      in interpolate_rgb (rg' ! i) (rg' ! Suc i) (normalize_real (dm' ! i) (dm' ! Suc i) x))"

definition color_domain :: "real \<Rightarrow> real \<Rightarrow> real list" where
  "color_domain first_sum last_sum =
     map (\<lambda>d. last_sum - ((last_sum - first_sum) / (real (length color_range) - 1)) * real d)
         [0..<length color_range]"

subsection \<open>The set-up block\<close>

datatype js_error = TypeError string

record chart =
  c_svg_width :: real
  c_width :: real
  c_height :: real
  c_svg_height :: real
  x_domain :: "jsnum \<times> jsnum"
  y_domain :: "jsnum \<times> jsnum"
  c_color_domain :: "real list"

definition y_max :: "series list \<Rightarrow> jsnum" where
  "y_max data =
     (case d3_max (\<lambda>s. d3_max (num_opt \<circ> value_num) (values_list s)) data of
        None \<Rightarrow> NaN
      | Some m \<Rightarrow> Num m)"

definition setup_chart :: "real \<Rightarrow> series list \<Rightarrow> js_error + chart" where
  "setup_chart svgw data =
     (case data of
        [] \<Rightarrow> Inl (TypeError ''data[0] is undefined'')
      | s0 # _ \<Rightarrow>
          (case values_list s0 of
             [] \<Rightarrow> Inl (TypeError ''data[0].values[0] is undefined'')
           | v0 # _ \<Rightarrow>
               Inr \<lparr>c_svg_width = svgw,
                    c_width = chart_width svgw,
                    c_height = chart_height (length data),
                    c_svg_height = svg_height (length data),
                    x_domain = (date v0, date (last (values_list s0))),
                    y_domain = (Num 0, y_max data),
                    c_color_domain = color_domain (sum_num s0) (sum_num (last data))\<rparr>))"

definition x_scale :: "chart \<Rightarrow> jsnum \<Rightarrow> jsnum" where
  "x_scale c = scale_linear (x_domain c) (0, c_width c)"

definition y_scale :: "chart \<Rightarrow> jsnum \<Rightarrow> jsnum" where
  "y_scale c = scale_linear (y_domain c) (0, - y_range_max)"

definition color_scale :: "chart \<Rightarrow> real \<Rightarrow> rgb" where
  "color_scale c = polymap_rgb (c_color_domain c) palette"

text \<open>A two-series chart used to run the scale lemmas on concrete data.\<close>

definition example_series :: "series list" where
  "example_series =
     [\<lparr>key = ''A'', values_list = [\<lparr>name = ''A'', date = Num 0, value_num = Num 3\<rparr>,
                                  \<lparr>name = ''A'', date = Num 1000, value_num = Num 7\<rparr>], sum_num = 10\<rparr>,
      \<lparr>key = ''B'', values_list = [\<lparr>name = ''B'', date = Num 0, value_num = Num 4\<rparr>], sum_num = 4\<rparr>]"

subsection \<open>Lemmas on the scales\<close>

lemma scale_linear_Num:
  assumes "d0 \<noteq> d1"
  shows "scale_linear (Num d0, Num d1) (r0, r1) (Num x) = Num (r0 + (x - d0) / (d1 - d0) * (r1 - r0))"
proof (cases "d1 < d0")
  case True
  have ne: "d1 - d0 \<noteq> 0" "d0 - d1 \<noteq> 0" using assms by auto
  define u where "u = (x - d1) / (d0 - d1)"
  have "scale_linear (Num d0, Num d1) (r0, r1) (Num x) = Num (r1 * (1 - u) + r0 * u)"
    using True ne by (simp add: scale_linear_def normalize_real_def interpolate_number_def u_def)
  also have "r1 * (1 - u) + r0 * u = r0 + (1 - u) * (r1 - r0)"
    by (simp add: algebra_simps)
  also have "1 - u = (x - d0) / (d1 - d0)"
    using ne by (simp add: u_def field_simps)
  finally show ?thesis .
next
  case False
  have ne: "d1 - d0 \<noteq> 0" using assms by auto
  define u where "u = (x - d0) / (d1 - d0)"
  have "scale_linear (Num d0, Num d1) (r0, r1) (Num x) = Num (r0 * (1 - u) + r1 * u)"
    using False ne by (simp add: scale_linear_def normalize_real_def interpolate_number_def u_def)
  also have "r0 * (1 - u) + r1 * u = r0 + u * (r1 - r0)"
    by (simp add: algebra_simps)
  finally show ?thesis by (simp add: u_def)
qed

lemma scale_linear_degenerate:
  "scale_linear (Num d, Num d) (r0, r1) (Num x) = Num ((r0 + r1) / 2)"
  by (simp add: scale_linear_def normalize_real_def interpolate_number_def field_simps)

lemma scale_linear_NaN [simp]: "scale_linear dm rg NaN = NaN"
  by (cases dm; cases rg; cases "fst dm"; cases "snd dm") (auto simp: scale_linear_def)

declare bisect_right.simps [simp del]

lemma bisect_right_spec:
  assumes "sorted a" "hi \<le> length a" "lo \<le> hi"
  shows "lo \<le> bisect_right a x lo hi \<and> bisect_right a x lo hi \<le> hi \<and>
         (\<forall>i. lo \<le> i \<and> i < bisect_right a x lo hi \<longrightarrow> a ! i \<le> x) \<and>
         (\<forall>i. bisect_right a x lo hi \<le> i \<and> i < hi \<longrightarrow> x < a ! i)"
  using assms
proof (induction a x lo hi rule: bisect_right.induct)
  case (1 a x lo hi)
  show ?case
  proof (cases "lo < hi")
    case False
    then have "bisect_right a x lo hi = lo"
      by (simp add: bisect_right.simps [of a x lo hi])
    then show ?thesis using "1.prems" False by simp
  next
    case True
    define mid where "mid = (lo + hi) div 2"
    have mid: "lo \<le> mid" "mid < hi" using True by (auto simp: mid_def)
    show ?thesis
    proof (cases "x < a ! mid")
      case lt: True
      let ?r = "bisect_right a x lo mid"
      have eq: "bisect_right a x lo hi = ?r"
        using True lt by (simp add: bisect_right.simps [of a x lo hi] mid_def Let_def)
      have IH: "lo \<le> ?r \<and> ?r \<le> mid \<and> (\<forall>i. lo \<le> i \<and> i < ?r \<longrightarrow> a ! i \<le> x) \<and>
                (\<forall>i. ?r \<le> i \<and> i < mid \<longrightarrow> x < a ! i)"
        using "1.IH"(1) [OF True mid_def lt] "1.prems" mid by simp
      have above: "x < a ! i" if "mid \<le> i" "i < hi" for i
      proof -
        have "a ! mid \<le> a ! i" using that "1.prems"(1,2) by (intro sorted_nth_mono) auto
        with lt show ?thesis by simp
      qed
      have "x < a ! i" if "?r \<le> i" "i < hi" for i
      proof (cases "i < mid")
        case True
        with IH that show ?thesis by blast
      next
        case False
        with that above show ?thesis by simp
      qed
      with IH mid show ?thesis unfolding eq by auto
    next
      case ge: False
      let ?r = "bisect_right a x (Suc mid) hi"
      have eq: "bisect_right a x lo hi = ?r"
        using True ge by (simp add: bisect_right.simps [of a x lo hi] mid_def Let_def)
      have IH: "Suc mid \<le> ?r \<and> ?r \<le> hi \<and> (\<forall>i. Suc mid \<le> i \<and> i < ?r \<longrightarrow> a ! i \<le> x) \<and>
                (\<forall>i. ?r \<le> i \<and> i < hi \<longrightarrow> x < a ! i)"
        using "1.IH"(2) [OF True mid_def ge] "1.prems" mid by simp
      have below: "a ! i \<le> x" if "i \<le> mid" for i
      proof -
        have "a ! i \<le> a ! mid" using that mid "1.prems"(1,2) by (intro sorted_nth_mono) auto
        with ge show ?thesis by simp
      qed
      have "a ! i \<le> x" if "lo \<le> i" "i < ?r" for i
      proof (cases "i \<le> mid")
        case True
        then show ?thesis by (rule below)
      next
        case False
        with IH that show ?thesis by simp
      qed
      with IH mid show ?thesis unfolding eq by auto
    qed
  qed
qed

lemma palette_eq:
  "palette = [\<lparr>rgb_r = 255, rgb_g = 170, rgb_b = 102\<rparr>, \<lparr>rgb_r = 221, rgb_g = 102, rgb_b = 85\<rparr>,
              \<lparr>rgb_r = 153, rgb_g = 51, rgb_b = 102\<rparr>, \<lparr>rgb_r = 85, rgb_g = 34, rgb_b = 85\<rparr>]"
  by (simp add: palette_def color_range_def parse_hex3_def hex_digit_def)

lemma color_domain_eq:
  "color_domain f l = [l, l + (f - l) / 3, l + 2 * (f - l) / 3, f]"
  by (simp add: color_domain_def color_range_def upt_rec field_simps)

lemma length_filter_prefix:
  assumes "\<And>i. i < length l \<Longrightarrow> P (l ! i) \<longleftrightarrow> i < k" and "k \<le> length l"
  shows "length (filter P l) = k"
proof -
  have "{i. i < length l \<and> P (l ! i)} = {..<k}"
    using assms by auto
  then show ?thesis by (simp add: length_filter_conv_card)
qed

text \<open>C10: the binary search \<open>bisect_right\<close> (d3-array's \<open>bisectRight\<close>) over a
  sorted slice computes the linear specification: the lower bound plus the
  number of slice elements not greater than the key.\<close>

lemma bisect_right_linear:
  assumes "sorted a" "lo \<le> hi" "hi \<le> length a"
  shows "bisect_right a x lo hi = lo + length (filter (\<lambda>v. v \<le> x) (drop lo (take hi a)))"
proof -
  let ?r = "bisect_right a x lo hi"
  have spec: "lo \<le> ?r \<and> ?r \<le> hi \<and> (\<forall>i. lo \<le> i \<and> i < ?r \<longrightarrow> a ! i \<le> x) \<and>
              (\<forall>i. ?r \<le> i \<and> i < hi \<longrightarrow> x < a ! i)"
    using assms by (intro bisect_right_spec) auto
  then have lo_r: "lo \<le> ?r" and r_hi: "?r \<le> hi"
    and below: "\<And>i. lo \<le> i \<Longrightarrow> i < ?r \<Longrightarrow> a ! i \<le> x"
    and above: "\<And>i. ?r \<le> i \<Longrightarrow> i < hi \<Longrightarrow> x < a ! i"
    by blast+
  have "length (filter (\<lambda>v. v \<le> x) (drop lo (take hi a))) = ?r - lo"
  proof (rule length_filter_prefix)
    fix i assume i: "i < length (drop lo (take hi a))"
    then have nth: "drop lo (take hi a) ! i = a ! (lo + i)" and lt: "lo + i < hi"
      using assms by auto
    show "drop lo (take hi a) ! i \<le> x \<longleftrightarrow> i < ?r - lo"
    proof (cases "lo + i < ?r")
      case True
      then have "a ! (lo + i) \<le> x" by (intro below) simp_all
      with True nth show ?thesis by simp
    next
      case False
      then have "x < a ! (lo + i)" using lt by (intro above) simp_all
      with False nth show ?thesis by simp
    qed
  next
    show "?r - lo \<le> length (drop lo (take hi a))" using r_hi assms by simp
  qed
  then show ?thesis using lo_r by simp
qed

lemma setup_chart_Inr:
  "setup_chart w data = Inr c \<longleftrightarrow>
   (\<exists>s0 rest v0 vs. data = s0 # rest \<and> values_list s0 = v0 # vs \<and>
      c = \<lparr>c_svg_width = w, c_width = chart_width w, c_height = chart_height (length data),
           c_svg_height = svg_height (length data),
           x_domain = (date v0, date (last (v0 # vs))), y_domain = (Num 0, y_max data),
           c_color_domain = color_domain (sum_num s0) (sum_num (last data))\<rparr>)"
  by (auto simp: setup_chart_def split: list.splits)

text \<open>The x scale maps the first and last date of the first series (the one with the largest sum) to the left and right edges, 0 and width.\<close>

theorem x_scale_endpoints:
  assumes "setup_chart w data = Inr c"
    and "date (hd (values_list (hd data))) = Num a" and "date (last (values_list (hd data))) = Num b"
    and "a \<noteq> b"
  shows "x_scale c (Num a) = Num 0 \<and> x_scale c (Num b) = Num (chart_width w)"
proof -
  have "x_domain c = (Num a, Num b)" "c_width c = chart_width w"
    using assms(1-3) by (auto simp: setup_chart_Inr)
  then show ?thesis
    using assms(4) by (simp add: x_scale_def scale_linear_Num)
qed

lemma y_scale_bounds:
  assumes "0 \<le> v" "v \<le> m"
  shows "\<exists>y. scale_linear (Num 0, Num m) (0, - y_range_max) (Num v) = Num y \<and> - y_range_max \<le> y \<and> y \<le> 0"
proof (cases "m = 0")
  case True
  then show ?thesis by (simp add: scale_linear_degenerate y_range_max_def)
next
  case False
  then have m: "0 < m" using assms by simp
  have "v * 75 \<le> 75 * m" "0 \<le> v * 75" using assms by simp_all
  then have "- y_range_max \<le> v / m * (- y_range_max) \<and> v / m * (- y_range_max) \<le> 0"
    using m by (simp add: y_range_max_def pos_divide_le_eq)
  then show ?thesis using False by (simp add: scale_linear_Num)
qed

lemma y_max_bound:
  assumes "s \<in> set data" "d \<in> set (values_list s)" "value_num d = Num v"
  shows "\<exists>m. y_max data = Num m \<and> v \<le> m"
proof -
  let ?inner = "\<lambda>s. d3_max (num_opt \<circ> value_num) (values_list s)"
  have "(num_opt \<circ> value_num) d = Some v" using assms(3) by simp
  then have "?inner s \<noteq> None" using assms(2) unfolding d3_max_None_iff by fastforce
  then obtain ms where ms: "?inner s = Some ms" by blast
  then have "v \<le> ms" using d3_max_Some [OF ms] assms(2,3) by auto
  have "d3_max ?inner data \<noteq> None" using assms(1) ms d3_max_None_iff [of ?inner data] by (metis option.distinct(1))
  then obtain m where m: "d3_max ?inner data = Some m" by blast
  then have "ms \<le> m" using d3_max_Some [OF m] assms(1) ms by blast
  show ?thesis using m \<open>v \<le> ms\<close> \<open>ms \<le> m\<close> by (simp add: y_max_def)
qed

text \<open>C9: every ridge stays inside the chart: for a non-negative value of the series in row i, the row offset plus its y coordinate lies between 0 and height.\<close>

theorem ridge_within_chart:
  assumes "setup_chart w data = Inr c" "i < length data"
    and "d \<in> set (values_list (data ! i))" "value_num d = Num v" "0 \<le> v"
  shows "\<exists>y. y_scale c (Num v) = Num y \<and> 0 \<le> row_offset i + y \<and> row_offset i + y \<le> c_height c"
proof -
  obtain m where m: "y_max data = Num m" "v \<le> m"
    using y_max_bound [OF nth_mem [OF assms(2)] assms(3,4)] by blast
  have c: "y_domain c = (Num 0, Num m)" "c_height c = chart_height (length data)"
    using assms(1) m by (auto simp: setup_chart_Inr)
  obtain y where y: "y_scale c (Num v) = Num y" "- y_range_max \<le> y" "y \<le> 0"
    using y_scale_bounds [OF assms(5) m(2)] c by (auto simp: y_scale_def)
  have "real i \<le> real (length data) - 1" using assms(2) by linarith
  then have "real i * step \<le> (real (length data) - 1) * step"
    by (simp add: step_def)
  then show ?thesis
    using y c by (auto simp: row_offset_def chart_height_def y_range_max_def step_def)
qed

lemma interpolate_rgb_0 [simp]: "interpolate_rgb a b 0 = a"
  and interpolate_rgb_1 [simp]: "interpolate_rgb a b 1 = b"
  by (simp_all add: interpolate_rgb_def channel_interp_def)

lemma length_palette [simp]: "length palette = 4"
  by (simp add: palette_eq)

lemma color_domain_nth:
  "color_domain f l ! 0 = l" "color_domain f l ! 1 = l + (f - l) / 3"
  "color_domain f l ! 2 = l + 2 * (f - l) / 3" "color_domain f l ! 3 = f"
  "length (color_domain f l) = 4"
  by (simp_all add: color_domain_eq)

lemma sorted_color_domain: "l \<le> f \<Longrightarrow> sorted (color_domain f l)"
  by (simp add: color_domain_eq field_simps)

lemma polymap_color_domain:
  assumes "l \<le> f"
  shows "polymap_rgb (color_domain f l) palette x =
         (let i = bisect_right (color_domain f l) x 1 3 - 1
          in interpolate_rgb (palette ! i) (palette ! Suc i)
               (normalize_real (color_domain f l ! i) (color_domain f l ! Suc i) x))"
proof -
  have "\<not> color_domain f l ! 3 < color_domain f l ! 0"
    using assms by (simp add: color_domain_nth)
  then show ?thesis
    by (simp add: polymap_rgb_def color_domain_nth(5) Let_def)
qed

lemma bisect_color_domain:
  assumes "l \<le> f"
  obtains r where "bisect_right (color_domain f l) x 1 3 = r" "1 \<le> r" "r \<le> 3"
    "\<And>i. 1 \<le> i \<Longrightarrow> i < r \<Longrightarrow> color_domain f l ! i \<le> x"
    "\<And>i. r \<le> i \<Longrightarrow> i < 3 \<Longrightarrow> x < color_domain f l ! i"
proof -
  have "sorted (color_domain f l)" using assms by (rule sorted_color_domain)
  from bisect_right_spec [OF this, of 3 1 x] show ?thesis
    using that by (simp add: color_domain_nth(5))
qed

lemma polymap_color_domain_segment:
  assumes "l \<le> f" "i < 3" "color_domain f l ! i \<le> x"
    and "x < color_domain f l ! Suc i \<or> Suc i = 3"
  shows "polymap_rgb (color_domain f l) palette x =
         interpolate_rgb (palette ! i) (palette ! Suc i)
           (normalize_real (color_domain f l ! i) (color_domain f l ! Suc i) x)"
proof -
  obtain r where r: "bisect_right (color_domain f l) x 1 3 = r" "1 \<le> r" "r \<le> 3"
    and below: "\<And>k. 1 \<le> k \<Longrightarrow> k < r \<Longrightarrow> color_domain f l ! k \<le> x"
    and above: "\<And>k. r \<le> k \<Longrightarrow> k < 3 \<Longrightarrow> x < color_domain f l ! k"
    using bisect_color_domain [OF assms(1)] by blast
  have "\<not> r < Suc i"
  proof
    assume "r < Suc i"
    then have "x < color_domain f l ! i" using r(2) assms(2) by (intro above) auto
    then show False using assms(3) by simp
  qed
  moreover have "\<not> Suc i < r"
  proof
    assume "Suc i < r"
    then have "color_domain f l ! Suc i \<le> x" using r(3) by (intro below) auto
    then show False using assms(4) \<open>Suc i < r\<close> r(3) by auto
  qed
  ultimately have "r = Suc i" by simp
  then show ?thesis
    unfolding polymap_color_domain [OF assms(1)] Let_def r by simp
qed

text \<open>C11: when the first series has the larger sum, the colour scale is piecewise linear in the sum: a sum in the i-th of the three equal segments between the last and the first series sum gets the blend of palette colours i and i+1 with weight 3 (x - last) / (first - last) - i, so the last series sum gets #FA6, the first #525, and every sum between gets the exact blend of its segment.\<close>

theorem color_scale_piecewise:
  assumes "setup_chart w data = Inr c"
    and "sum_num (last data) < sum_num (hd data)" "i < 3"
    and "sum_num (last data) + real i * (sum_num (hd data) - sum_num (last data)) / 3 \<le> x"
    and "x \<le> sum_num (last data) + real (Suc i) * (sum_num (hd data) - sum_num (last data)) / 3"
  shows "color_scale c x = interpolate_rgb (palette ! i) (palette ! Suc i)
           (3 * (x - sum_num (last data)) / (sum_num (hd data) - sum_num (last data)) - real i)"
proof -
  let ?l = "sum_num (last data)" and ?f = "sum_num (hd data)"
  let ?d = "color_domain ?f ?l"
  have cd: "c_color_domain c = ?d" using assms(1) by (auto simp: setup_chart_Inr)
  have lf: "?l \<le> ?f" using assms(2) by simp
  have dk: "\<And>k. k \<le> 3 \<Longrightarrow> ?d ! k = ?l + real k * (?f - ?l) / 3"
  proof -
    fix k :: nat assume "k \<le> 3"
    then consider "k = 0" | "k = 1" | "k = 2" | "k = 3" by linarith
    then show "?d ! k = ?l + real k * (?f - ?l) / 3"
      by cases (simp_all add: color_domain_eq field_simps)
  qed
  have di: "?d ! i = ?l + real i * (?f - ?l) / 3"
    and di1: "?d ! Suc i = ?l + real (Suc i) * (?f - ?l) / 3"
    using assms(3) dk by simp_all
  have lo: "?d ! i \<le> x" using assms(4) unfolding di .
  have t: "normalize_real (?d ! i) (?d ! Suc i) x = 3 * (x - ?l) / (?f - ?l) - real i"
    unfolding di di1 normalize_real_def using assms(2) by (simp add: field_simps)
  show ?thesis
  proof (cases "x < ?d ! Suc i \<or> Suc i = 3")
    case True
    show ?thesis
      unfolding color_scale_def cd polymap_color_domain_segment [OF lf assms(3) lo True] t ..
  next
    case False
    then have x: "x = ?d ! Suc i" "Suc (Suc i) \<le> 3"
      using assms(3,5) dk [of "Suc i"] by auto
    have lt: "?d ! Suc i < ?d ! Suc (Suc i)"
      using x(2) assms(2) dk [of "Suc i"] dk [of "Suc (Suc i)"] by (simp add: field_simps)
    have "color_scale c x = interpolate_rgb (palette ! Suc i) (palette ! Suc (Suc i))
            (normalize_real (?d ! Suc i) (?d ! Suc (Suc i)) x)"
      unfolding color_scale_def cd
      using polymap_color_domain_segment [OF lf _ _, of "Suc i" x] x lt by simp
    then have "color_scale c x = interpolate_rgb (palette ! Suc i) (palette ! Suc (Suc i)) 0"
      using lt x(1) by (simp add: normalize_real_def)
    moreover have "3 * (x - ?l) / (?f - ?l) - real i = 1"
      using x assms(2) dk [of "Suc i"] by (simp add: field_simps)
    ultimately show ?thesis by simp
  qed
qed

text \<open>When the sums differ, the series with the smallest sum gets the first palette colour #FA6 and the one with the largest sum the last colour #525.\<close>

theorem color_scale_endpoints:
  assumes "setup_chart w data = Inr c" "sum_num (last data) < sum_num (hd data)"
  shows "color_scale c (sum_num (last data)) = \<lparr>rgb_r = 255, rgb_g = 170, rgb_b = 102\<rparr> \<and>
         color_scale c (sum_num (hd data)) = \<lparr>rgb_r = 85, rgb_g = 34, rgb_b = 85\<rparr>"
proof -
  let ?l = "sum_num (last data)" and ?f = "sum_num (hd data)"
  have cd: "c_color_domain c = color_domain ?f ?l"
    using assms(1) by (auto simp: setup_chart_Inr)
  have lf: "?l \<le> ?f" using assms(2) by simp
  obtain r where r: "bisect_right (color_domain ?f ?l) ?l 1 3 = r" "1 \<le> r"
    and below: "\<And>i. 1 \<le> i \<Longrightarrow> i < r \<Longrightarrow> color_domain ?f ?l ! i \<le> ?l"
    using bisect_color_domain [OF lf] by blast
  have "r = 1"
  proof (rule ccontr)
    assume "r \<noteq> 1"
    then have "color_domain ?f ?l ! 1 \<le> ?l" using r(2) by (intro below) auto
    then show False using assms(2) by (simp add: color_domain_eq field_simps)
  qed
  then have low: "color_scale c ?l = palette ! 0"
    using assms(2) unfolding color_scale_def cd polymap_color_domain [OF lf] Let_def r
    by (simp add: normalize_real_def color_domain_eq)
  obtain r' where r': "bisect_right (color_domain ?f ?l) ?f 1 3 = r'" "r' \<le> 3"
    and above: "\<And>i. r' \<le> i \<Longrightarrow> i < 3 \<Longrightarrow> ?f < color_domain ?f ?l ! i"
    using bisect_color_domain [OF lf] by blast
  have "r' = 3"
  proof (rule ccontr)
    assume "r' \<noteq> 3"
    then have "?f < color_domain ?f ?l ! 2" using r'(2) by (intro above) auto
    then show False using assms(2) by (simp add: color_domain_eq field_simps)
  qed
  then have high: "color_scale c ?f = palette ! 3"
    using assms(2) unfolding color_scale_def cd polymap_color_domain [OF lf] Let_def r'
    by (simp add: normalize_real_def color_domain_eq field_simps)
  show ?thesis using low high by (simp add: palette_eq)
qed

text \<open>C12: when the first and last series have the same sum (in particular a single series), that sum gets the midpoint of #936 and #525, not an end colour of the palette.\<close>

theorem color_scale_equal_sums:
  assumes "setup_chart w data = Inr c" "sum_num (last data) = sum_num (hd data)"
  shows "color_scale c (sum_num (hd data)) = \<lparr>rgb_r = 119, rgb_g = 85 / 2, rgb_b = 187 / 2\<rparr>"
proof -
  let ?s = "sum_num (hd data)"
  have cd: "c_color_domain c = color_domain ?s ?s"
    using assms by (auto simp: setup_chart_Inr)
  obtain r where r: "bisect_right (color_domain ?s ?s) ?s 1 3 = r" "r \<le> 3"
    and above: "\<And>i. r \<le> i \<Longrightarrow> i < 3 \<Longrightarrow> ?s < color_domain ?s ?s ! i"
    using bisect_color_domain [of ?s ?s ?s] by blast
  have "r = 3"
  proof (rule ccontr)
    assume "r \<noteq> 3"
    then have "?s < color_domain ?s ?s ! 2" using r(2) by (intro above) auto
    then show False by (simp add: color_domain_nth)
  qed
  then have "color_scale c ?s = interpolate_rgb (palette ! 2) (palette ! 3) (1 / 2)"
    unfolding color_scale_def cd polymap_color_domain [OF order_refl] r
    by (simp add: normalize_real_def color_domain_nth)
  then show ?thesis
    by (simp add: palette_eq interpolate_rgb_def channel_interp_def)
qed

lemmas scales_eval = example_series_def setup_chart_def y_max_def d3_max_def chart_width_def
  chart_height_def svg_height_def margin_def step_def y_range_max_def color_domain_def color_range_def

theorem ridge_within_chart_witness:
  "setup_chart 600 example_series = Inr (projr (setup_chart 600 example_series)) \<and>
   1 < length example_series \<and>
   hd (values_list (example_series ! 1)) \<in> set (values_list (example_series ! 1)) \<and>
   value_num (hd (values_list (example_series ! 1))) = Num 4 \<and>
   (\<exists>y. y_scale (projr (setup_chart 600 example_series)) (Num 4) = Num y \<and>
        0 \<le> row_offset 1 + y \<and> row_offset 1 + y \<le> c_height (projr (setup_chart 600 example_series)))"
proof -
  have h1: "setup_chart 600 example_series = Inr (projr (setup_chart 600 example_series))"
    by (simp add: scales_eval)
  have h2: "1 < length example_series" by (simp add: example_series_def)
  have h3: "hd (values_list (example_series ! 1)) \<in> set (values_list (example_series ! 1))"
    by (simp add: example_series_def)
  have h4: "value_num (hd (values_list (example_series ! 1))) = Num 4"
    by (simp add: example_series_def)
  have h5: "(0::real) \<le> 4" by simp
  show ?thesis using h1 h2 h3 h4 ridge_within_chart [OF h1 h2 h3 h4 h5] by blast
qed

theorem bisect_right_linear_witness:
  "sorted [1, 2, 3 :: real] \<and> bisect_right [1, 2, 3] 2 0 3 = 0 + length (filter (\<lambda>v. v \<le> 2) (drop 0 (take 3 [1, 2, 3 :: real])))"
proof -
  have h: "sorted [1, 2, 3 :: real]" by simp
  show ?thesis using h bisect_right_linear [OF h, of 0 3 2] by simp
qed

theorem color_scale_piecewise_witness:
  "setup_chart 600 example_series = Inr (projr (setup_chart 600 example_series)) \<and>
   color_scale (projr (setup_chart 600 example_series)) 7 = \<lparr>rgb_r = 187, rgb_g = 153 / 2, rgb_b = 187 / 2\<rparr>"
proof -
  have h1: "setup_chart 600 example_series = Inr (projr (setup_chart 600 example_series))"
    by (simp add: scales_eval)
  have s: "sum_num (last example_series) = 4" "sum_num (hd example_series) = 10"
    by (simp_all add: example_series_def)
  have h2: "sum_num (last example_series) < sum_num (hd example_series)" unfolding s by simp
  have h3: "(1::nat) < 3" by simp
  have h4: "sum_num (last example_series) + real 1 * (sum_num (hd example_series) - sum_num (last example_series)) / 3 \<le> 7"
    unfolding s by simp
  have h5: "7 \<le> sum_num (last example_series) + real (Suc 1) * (sum_num (hd example_series) - sum_num (last example_series)) / 3"
    unfolding s by simp
  show ?thesis
    using h1 color_scale_piecewise [OF h1 h2 h3 h4 h5] unfolding s
    by (simp add: palette_eq interpolate_rgb_def channel_interp_def)
qed

theorem x_scale_endpoints_witness:
  "setup_chart 600 example_series = Inr (projr (setup_chart 600 example_series)) \<and>
   x_scale (projr (setup_chart 600 example_series)) (Num 0) = Num 0 \<and>
   x_scale (projr (setup_chart 600 example_series)) (Num 1000) = Num (chart_width 600)"
proof -
  have h1: "setup_chart 600 example_series = Inr (projr (setup_chart 600 example_series))"
    by (simp add: scales_eval)
  have h2: "date (hd (values_list (hd example_series))) = Num 0" by (simp add: example_series_def)
  have h3: "date (last (values_list (hd example_series))) = Num 1000" by (simp add: example_series_def)
  show ?thesis using h1 x_scale_endpoints [OF h1 h2 h3] by simp
qed

theorem color_scale_endpoints_witness:
  "setup_chart 600 example_series = Inr (projr (setup_chart 600 example_series)) \<and>
   sum_num (last example_series) < sum_num (hd example_series) \<and>
   color_scale (projr (setup_chart 600 example_series)) 4 = \<lparr>rgb_r = 255, rgb_g = 170, rgb_b = 102\<rparr> \<and>
   color_scale (projr (setup_chart 600 example_series)) 10 = \<lparr>rgb_r = 85, rgb_g = 34, rgb_b = 85\<rparr>"
proof -
  have h1: "setup_chart 600 example_series = Inr (projr (setup_chart 600 example_series))"
    by (simp add: scales_eval)
  have h2: "sum_num (last example_series) < sum_num (hd example_series)"
    by (simp add: example_series_def)
  have s: "sum_num (last example_series) = 4" "sum_num (hd example_series) = 10"
    by (simp_all add: example_series_def)
  show ?thesis using h1 h2 color_scale_endpoints [OF h1 h2] unfolding s by simp
qed

theorem color_scale_equal_sums_witness:
  "setup_chart 600 [hd example_series] = Inr (projr (setup_chart 600 [hd example_series])) \<and>
   color_scale (projr (setup_chart 600 [hd example_series])) 10 = \<lparr>rgb_r = 119, rgb_g = 85 / 2, rgb_b = 187 / 2\<rparr>"
proof -
  have h1: "setup_chart 600 [hd example_series] = Inr (projr (setup_chart 600 [hd example_series]))"
    by (simp add: scales_eval)
  have h2: "sum_num (last [hd example_series]) = sum_num (hd [hd example_series])" by simp
  have s: "sum_num (hd [hd example_series]) = 10" by (simp add: example_series_def)
  show ?thesis using h1 color_scale_equal_sums [OF h1 h2] unfolding s by simp
qed

end
