(* ===== verification/Shapes.thy ===== *)
theory Shapes
  imports Scales
begin

text \<open>
  The path generators, \<open>src/main.js\<close> lines 86--95 and their use on lines
  137--148: \<open>d3.area().curve(d3.curveBasis).defined(d => !isNaN(d.value))
  .x(d => x(d.date)).y0(0).y1(d => y(d.value))\<close> and \<open>area.lineY1()\<close>, as
  d3-shape 1.3 implements them.  A path is the list of drawing commands sent to
  the path context (\<open>path_cmd\<close>); the string form \<open>M x,y L ... C ... Z\<close> is not
  modelled, an empty path is d3's \<open>null\<close>.

  \<open>curveBasis\<close> is a state machine (\<open>basis\<close>): the last two points, a point
  counter and the flag \<open>_line\<close>, which is undefined for a line, 0 and 1 while
  an area draws its top and its baseline, and \<open>NaN\<close> after an area
  (\<open>basis_point\<close>, \<open>basis_line_start\<close>, \<open>basis_line_end\<close>,
  \<open>basis_area_start\<close>, \<open>basis_area_end\<close>).  The generators walk the data
  once with a sentinel at the end (\<open>line_item\<close>, \<open>line_gen\<close>,
  \<open>area_item\<close>, \<open>area_gen\<close>): a change of \<open>defined\<close> starts or ends a
  segment; an area segment is closed by walking its baseline backwards.
\<close>

datatype path_cmd =
  MoveTo jsnum jsnum
| LineTo jsnum jsnum
| CurveTo jsnum jsnum jsnum jsnum jsnum jsnum
| ClosePath

text \<open>\<open>(c1 * v1 + ... + cn * vn) / d\<close> on numbers, \<open>NaN\<close> if any \<open>vi\<close> is.\<close>

definition js_affine :: "(real \<times> jsnum) list \<Rightarrow> real \<Rightarrow> jsnum" where
  "js_affine cs d =
     (if list_all (\<lambda>(c, v). v \<noteq> NaN) cs
      then Num (sum_list (map (\<lambda>(c, v). c * finite_part v) cs) / d) else NaN)"

record basis =
  bx0 :: jsnum
  bx1 :: jsnum
  by0 :: jsnum
  by1 :: jsnum
  bpoint :: nat
  bline :: "jsnum option"
  bpath :: "path_cmd list"

definition basis_new :: basis where
  "basis_new = \<lparr>bx0 = NaN, bx1 = NaN, by0 = NaN, by1 = NaN, bpoint = 0, bline = None, bpath = []\<rparr>"

fun line_truthy :: "jsnum option \<Rightarrow> bool" where
  "line_truthy None = False"
| "line_truthy (Some NaN) = False"
| "line_truthy (Some (Num r)) = (r \<noteq> 0)"

fun one_minus :: "jsnum option \<Rightarrow> jsnum option" where
  "one_minus None = Some NaN"
| "one_minus (Some v) = Some (js_sub (Num 1) v)"

definition emit :: "path_cmd \<Rightarrow> basis \<Rightarrow> basis" where
  "emit c s = s\<lparr>bpath := bpath s @ [c]\<rparr>"

definition basis_bezier :: "basis \<Rightarrow> jsnum \<Rightarrow> jsnum \<Rightarrow> basis" where
  "basis_bezier s x y =
     emit (CurveTo (js_affine [(2, bx0 s), (1, bx1 s)] 3) (js_affine [(2, by0 s), (1, by1 s)] 3)
                   (js_affine [(1, bx0 s), (2, bx1 s)] 3) (js_affine [(1, by0 s), (2, by1 s)] 3)
                   (js_affine [(1, bx0 s), (4, bx1 s), (1, x)] 6)
                   (js_affine [(1, by0 s), (4, by1 s), (1, y)] 6)) s"

definition basis_area_start :: "basis \<Rightarrow> basis" where
  "basis_area_start s = s\<lparr>bline := Some (Num 0)\<rparr>"

definition basis_area_end :: "basis \<Rightarrow> basis" where
  "basis_area_end s = s\<lparr>bline := Some NaN\<rparr>"

definition basis_line_start :: "basis \<Rightarrow> basis" where
  "basis_line_start s = s\<lparr>bx0 := NaN, bx1 := NaN, by0 := NaN, by1 := NaN, bpoint := 0\<rparr>"

definition basis_line_end :: "basis \<Rightarrow> basis" where
  "basis_line_end s =
     (let s1 = (if bpoint s = 3 then emit (LineTo (bx1 s) (by1 s)) (basis_bezier s (bx1 s) (by1 s))
                else if bpoint s = 2 then emit (LineTo (bx1 s) (by1 s)) s
                else s);
          s2 = (if line_truthy (bline s1) \<or> (bline s1 \<noteq> Some (Num 0) \<and> bpoint s1 = 1)
                then emit ClosePath s1 else s1)
      in s2\<lparr>bline := one_minus (bline s2)\<rparr>)"

definition basis_point :: "basis \<Rightarrow> jsnum \<Rightarrow> jsnum \<Rightarrow> basis" where
  "basis_point s x y =
     (let s1 = (if bpoint s = 0 then
                  (if line_truthy (bline s) then emit (LineTo x y) s else emit (MoveTo x y) s)\<lparr>bpoint := 1\<rparr>
                else if bpoint s = 1 then s\<lparr>bpoint := 2\<rparr>
                else if bpoint s = 2 then
                  basis_bezier
                    ((emit (LineTo (js_affine [(5, bx0 s), (1, bx1 s)] 6)
                                   (js_affine [(5, by0 s), (1, by1 s)] 6)) s)\<lparr>bpoint := 3\<rparr>) x y
                else basis_bezier s x y)
      in s1\<lparr>bx0 := bx1 s1, bx1 := x, by0 := by1 s1, by1 := y\<rparr>)"

definition basis_points :: "basis \<Rightarrow> (jsnum \<times> jsnum) list \<Rightarrow> basis" where
  "basis_points s ps = foldl (\<lambda>c (px, py). basis_point c px py) s ps"

record line_acc =
  l_defined0 :: bool
  l_curve :: basis

definition line_item :: "('a \<Rightarrow> bool) \<Rightarrow> ('a \<Rightarrow> jsnum) \<Rightarrow> ('a \<Rightarrow> jsnum) \<Rightarrow>
                         line_acc \<Rightarrow> 'a option \<Rightarrow> line_acc" where
  "line_item def fx fy acc item =
     (let di = (case item of Some d \<Rightarrow> def d | None \<Rightarrow> False);
          acc1 = (if di \<noteq> l_defined0 acc then
                    acc\<lparr>l_defined0 := di,
                        l_curve := (if di then basis_line_start (l_curve acc)
                                    else basis_line_end (l_curve acc))\<rparr>
                  else acc)
      in (case item of
            Some d \<Rightarrow> if l_defined0 acc1 then acc1\<lparr>l_curve := basis_point (l_curve acc1) (fx d) (fy d)\<rparr>
                      else acc1
          | None \<Rightarrow> acc1))"

definition line_gen :: "('a \<Rightarrow> bool) \<Rightarrow> ('a \<Rightarrow> jsnum) \<Rightarrow> ('a \<Rightarrow> jsnum) \<Rightarrow> 'a list \<Rightarrow> path_cmd list" where
  "line_gen def fx fy data =
     bpath (l_curve (foldl (line_item def fx fy) \<lparr>l_defined0 = False, l_curve = basis_new\<rparr>
                           (map Some data @ [None])))"

record area_acc =
  a_defined0 :: bool
  a_run :: "(jsnum \<times> jsnum) list"
  a_curve :: basis

definition area_item :: "('a \<Rightarrow> bool) \<Rightarrow> ('a \<Rightarrow> jsnum) \<Rightarrow> ('a \<Rightarrow> jsnum) \<Rightarrow> ('a \<Rightarrow> jsnum) \<Rightarrow>
                         area_acc \<Rightarrow> 'a option \<Rightarrow> area_acc" where
  "area_item def fx0 fy0 fy1 acc item =
     (let di = (case item of Some d \<Rightarrow> def d | None \<Rightarrow> False);
          acc1 = (if di \<noteq> a_defined0 acc then
                    (if di then
                       acc\<lparr>a_defined0 := True, a_run := [],
                           a_curve := basis_line_start (basis_area_start (a_curve acc))\<rparr>
                     else
                       acc\<lparr>a_defined0 := False,
                           a_curve := basis_area_end (basis_line_end
                             (basis_points (basis_line_start (basis_line_end (a_curve acc)))
                                           (rev (a_run acc))))\<rparr>)
                  else acc)
      in (case item of
            Some d \<Rightarrow>
              if a_defined0 acc1 then
                acc1\<lparr>a_run := a_run acc1 @ [(fx0 d, fy0 d)],
                     a_curve := basis_point (a_curve acc1) (fx0 d) (fy1 d)\<rparr>
              else acc1
          | None \<Rightarrow> acc1))"

definition area_gen :: "('a \<Rightarrow> bool) \<Rightarrow> ('a \<Rightarrow> jsnum) \<Rightarrow> ('a \<Rightarrow> jsnum) \<Rightarrow> ('a \<Rightarrow> jsnum) \<Rightarrow>
                        'a list \<Rightarrow> path_cmd list" where
  "area_gen def fx0 fy0 fy1 data =
     bpath (a_curve (foldl (area_item def fx0 fy0 fy1)
                           \<lparr>a_defined0 = False, a_run = [], a_curve = basis_new\<rparr>
                           (map Some data @ [None])))"

text \<open>Reference descriptions: the maximal runs of defined elements, and the
  commands of a uniform cubic B-spline through a run, clamped at its ends
  (\<open>first\<close> is the command for the first point, \<open>close\<close> whether the
  subpath is closed).\<close>

function defined_runs :: "('a \<Rightarrow> bool) \<Rightarrow> 'a list \<Rightarrow> 'a list list" where
  "defined_runs p [] = []"
| "defined_runs p (x # xs) =
     (if p x then (x # takeWhile p xs) # defined_runs p (dropWhile p xs) else defined_runs p xs)"
  by pat_completeness auto
termination
  by (relation "measure (\<lambda>(p, xs). length xs)") (auto simp: le_imp_less_Suc length_dropWhile_le)

definition bezier_cmd :: "jsnum \<times> jsnum \<Rightarrow> jsnum \<times> jsnum \<Rightarrow> jsnum \<times> jsnum \<Rightarrow> path_cmd" where
  "bezier_cmd a b c =
     CurveTo (js_affine [(2, fst a), (1, fst b)] 3) (js_affine [(2, snd a), (1, snd b)] 3)
             (js_affine [(1, fst a), (2, fst b)] 3) (js_affine [(1, snd a), (2, snd b)] 3)
             (js_affine [(1, fst a), (4, fst b), (1, fst c)] 6)
             (js_affine [(1, snd a), (4, snd b), (1, snd c)] 6)"

fun beziers :: "(jsnum \<times> jsnum) list \<Rightarrow> path_cmd list" where
  "beziers (a # b # c # rest) = bezier_cmd a b c # beziers (b # c # rest)"
| "beziers _ = []"

fun curve_cmds :: "(jsnum \<Rightarrow> jsnum \<Rightarrow> path_cmd) \<Rightarrow> bool \<Rightarrow> (jsnum \<times> jsnum) list \<Rightarrow> path_cmd list" where
  "curve_cmds first close [] = []"
| "curve_cmds first close [p] = first (fst p) (snd p) # (if close then [ClosePath] else [])"
| "curve_cmds first close [p0, p1] =
     [first (fst p0) (snd p0), LineTo (fst p1) (snd p1)] @ (if close then [ClosePath] else [])"
| "curve_cmds first close (p0 # p1 # p2 # rest) =
     first (fst p0) (snd p0) #
     LineTo (js_affine [(5, fst p0), (1, fst p1)] 6) (js_affine [(5, snd p0), (1, snd p1)] 6) #
     beziers (p0 # p1 # p2 # rest) @
     [bezier_cmd (last (butlast (p0 # p1 # p2 # rest))) (last (p0 # p1 # p2 # rest)) (last (p0 # p1 # p2 # rest)),
      LineTo (fst (last (p0 # p1 # p2 # rest))) (snd (last (p0 # p1 # p2 # rest)))] @
     (if close then [ClosePath] else [])"

definition example_week_values :: "datum list" where
  "example_week_values =
     [\<lparr>name = ''A'', date = Num 0, value_num = Num 3\<rparr>,
      \<lparr>name = ''A'', date = Num 1000, value_num = Num 7\<rparr>]"

text \<open>The generators of the script, for a chart \<open>c\<close>.\<close>

definition value_defined :: "datum \<Rightarrow> bool" where
  "value_defined d \<longleftrightarrow> \<not> is_nan (value_num d)"

definition ridge_area :: "chart \<Rightarrow> datum list \<Rightarrow> path_cmd list" where
  "ridge_area c = area_gen value_defined (\<lambda>d. x_scale c (date d)) (\<lambda>_. Num 0)
                           (\<lambda>d. y_scale c (value_num d))"

definition ridge_line :: "chart \<Rightarrow> datum list \<Rightarrow> path_cmd list" where
  "ridge_line c = line_gen value_defined (\<lambda>d. x_scale c (date d)) (\<lambda>d. y_scale c (value_num d))"

subsection \<open>Reference descriptions of one run\<close>

definition line_mode :: "jsnum option \<Rightarrow> bool" where
  "line_mode f \<longleftrightarrow> f = None \<or> f = Some NaN"

definition pts :: "('a \<Rightarrow> jsnum) \<Rightarrow> ('a \<Rightarrow> jsnum) \<Rightarrow> 'a list \<Rightarrow> (jsnum \<times> jsnum) list" where
  "pts fx fy r = map (\<lambda>d. (fx d, fy d)) r"

definition line_run_cmds :: "('a \<Rightarrow> jsnum) \<Rightarrow> ('a \<Rightarrow> jsnum) \<Rightarrow> 'a list \<Rightarrow> path_cmd list" where
  "line_run_cmds fx fy r = curve_cmds MoveTo (length r = 1) (pts fx fy r)"

definition area_run_cmds :: "('a \<Rightarrow> jsnum) \<Rightarrow> ('a \<Rightarrow> jsnum) \<Rightarrow> ('a \<Rightarrow> jsnum) \<Rightarrow> 'a list \<Rightarrow> path_cmd list" where
  "area_run_cmds fx0 fy0 fy1 r =
     curve_cmds MoveTo False (pts fx0 fy1 r) @ curve_cmds LineTo True (rev (pts fx0 fy0 r))"

fun is_move :: "path_cmd \<Rightarrow> bool" where
  "is_move (MoveTo x y) = True"
| "is_move _ = False"

fun is_close :: "path_cmd \<Rightarrow> bool" where
  "is_close ClosePath = True"
| "is_close _ = False"

subsection \<open>One segment of the basis curve\<close>

lemma basis_point_fields [simp]:
  "bline (basis_point s x y) = bline s"
  "bx1 (basis_point s x y) = x" "by1 (basis_point s x y) = y"
  "bx0 (basis_point s x y) = bx1 s" "by0 (basis_point s x y) = by1 s"
  by (simp_all add: basis_point_def basis_bezier_def emit_def Let_def)

lemma basis_points_snoc:
  "basis_points s (ps @ [p]) = basis_point (basis_points s ps) (fst p) (snd p)"
  by (simp add: basis_points_def split_def)

lemma basis_points_Nil [simp]: "basis_points s [] = s"
  by (simp add: basis_points_def)

lemma basis_points_append:
  "basis_points s (ps @ qs) = basis_points (basis_points s ps) qs"
  by (simp add: basis_points_def)

lemma basis_points_Cons:
  "basis_points s (p # ps) = basis_points (basis_point s (fst p) (snd p)) ps"
  by (simp add: basis_points_def split_def)

lemma bline_basis_points [simp]: "bline (basis_points s ps) = bline s"
  by (induction ps arbitrary: s) (simp_all add: basis_points_Cons)

text \<open>In the steady state (three points seen) each point adds one B\'ezier
  segment.\<close>

lemma basis_points_steady:
  assumes "bpoint s = 3"
  shows "bpoint (basis_points s ps) = 3 \<and>
         bpath (basis_points s ps) = bpath s @ beziers ((bx0 s, by0 s) # (bx1 s, by1 s) # ps) \<and>
         (bx0 (basis_points s ps), by0 (basis_points s ps)) = last (butlast ((bx0 s, by0 s) # (bx1 s, by1 s) # ps)) \<and>
         (bx1 (basis_points s ps), by1 (basis_points s ps)) = last ((bx0 s, by0 s) # (bx1 s, by1 s) # ps)"
  using assms
proof (induction ps arbitrary: s)
  case Nil
  then show ?case by (simp add: basis_points_def)
next
  case (Cons p ps)
  let ?s' = "basis_point s (fst p) (snd p)"
  have s': "bpoint ?s' = 3" "bpath ?s' = bpath s @ [bezier_cmd (bx0 s, by0 s) (bx1 s, by1 s) p]"
    "bx0 ?s' = bx1 s" "by0 ?s' = by1 s" "bx1 ?s' = fst p" "by1 ?s' = snd p"
    using Cons.prems by (simp_all add: basis_point_def basis_bezier_def emit_def bezier_cmd_def Let_def)
  show ?case
    using Cons.IH [of ?s'] s' by (cases ps) (simp_all add: basis_points_Cons)
qed

lemma bline_basis_line_end [simp]: "bline (basis_line_end s) = one_minus (bline s)"
  by (simp add: basis_line_end_def basis_bezier_def emit_def Let_def)

lemma basis_line_start_fields [simp]:
  "bline (basis_line_start s) = bline s" "bpath (basis_line_start s) = bpath s"
  "bpoint (basis_line_start s) = 0"
  by (simp_all add: basis_line_start_def)

lemma basis_line_end_steady:
  assumes "bpoint s = 3" "(bx0 s, by0 s) = a" "(bx1 s, by1 s) = b"
  shows "bpath (basis_line_end s) =
           bpath s @ [bezier_cmd a b b, LineTo (fst b) (snd b)] @
           (if line_truthy (bline s) then [ClosePath] else [])"
  using assms by (auto simp: basis_line_end_def basis_bezier_def bezier_cmd_def emit_def Let_def)

text \<open>A whole segment: \<open>lineStart\<close>, the points, \<open>lineEnd\<close> draw the
  clamped B-spline through the points; the first command and the closing
  \<open>Z\<close> depend on the flag \<open>_line\<close> only.\<close>

lemma basis_segment:
  assumes "ps \<noteq> []"
  shows "bpath (basis_line_end (basis_points (basis_line_start c) ps)) =
           bpath c @ curve_cmds (if line_truthy (bline c) then LineTo else MoveTo)
                       (line_truthy (bline c) \<or> (bline c \<noteq> Some (Num 0) \<and> length ps = 1)) ps"
proof -
  consider p where "ps = [p]" | p0 p1 where "ps = [p0, p1]" | p0 p1 p2 rest where "ps = p0 # p1 # p2 # rest"
    using assms by (metis list.exhaust)
  then show ?thesis
  proof cases
    case 1
    then show ?thesis
      by (simp add: basis_points_Cons basis_point_def basis_line_end_def emit_def Let_def)
  next
    case 2
    then show ?thesis
      by (simp add: basis_points_Cons basis_point_def basis_line_end_def emit_def Let_def)
  next
    case 3
    define s3 where "s3 = basis_points (basis_line_start c) [p0, p1, p2]"
    define s' where "s' = basis_points s3 rest"
    have s3: "bpoint s3 = 3" "bline s3 = bline c"
      "bpath s3 = bpath c @ [(if line_truthy (bline c) then LineTo else MoveTo) (fst p0) (snd p0),
          LineTo (js_affine [(5, fst p0), (1, fst p1)] 6) (js_affine [(5, snd p0), (1, snd p1)] 6),
          bezier_cmd p0 p1 p2]"
      "(bx0 s3, by0 s3) = p1" "(bx1 s3, by1 s3) = p2"
      unfolding s3_def
      by (simp_all add: basis_points_Cons basis_point_def basis_bezier_def bezier_cmd_def emit_def Let_def)
    have split: "basis_points (basis_line_start c) ps = s'"
      unfolding s'_def s3_def 3 using basis_points_append [of _ "[p0, p1, p2]" rest] by simp
    have st: "bpoint s' = 3" "bpath s' = bpath s3 @ beziers (p1 # p2 # rest)"
      "(bx0 s', by0 s') = last (butlast (p1 # p2 # rest))" "(bx1 s', by1 s') = last (p1 # p2 # rest)"
      using basis_points_steady [OF s3(1), of rest] unfolding s'_def s3(4,5) by simp_all
    have bl: "bline s' = bline c"
      unfolding s'_def s3_def by simp
    have lb: "last (butlast (p0 # p1 # p2 # rest)) = last (butlast (p1 # p2 # rest))"
      "last (p0 # p1 # p2 # rest) = last (p1 # p2 # rest)"
      by simp_all
    show ?thesis
      unfolding split basis_line_end_steady [OF st(1,3,4)] st(2) s3(3) bl unfolding 3
      by (simp add: lb del: last.simps butlast.simps)
  qed
qed

subsection \<open>The line generator\<close>

lemma line_mode_segment:
  assumes "line_mode (bline c)" "r \<noteq> []"
  shows "bpath (basis_line_end (basis_points (basis_line_start c) (pts fx fy r))) =
           bpath c @ line_run_cmds fx fy r"
    and "line_mode (bline (basis_line_end (basis_points (basis_line_start c) (pts fx fy r))))"
  using assms basis_segment [of "pts fx fy r" c]
  by (auto simp: line_mode_def line_run_cmds_def pts_def)

lemma line_fold:
  assumes "line_mode (bline c)"
  shows "bpath (l_curve (foldl (line_item def fx fy) \<lparr>l_defined0 = False, l_curve = c\<rparr>
                                (map Some xs @ [None]))) =
           bpath c @ concat (map (line_run_cmds fx fy) (defined_runs def xs)) \<and>
         (\<forall>cur. cur \<noteq> [] \<longrightarrow>
           bpath (l_curve (foldl (line_item def fx fy)
                   \<lparr>l_defined0 = True, l_curve = basis_points (basis_line_start c) (pts fx fy cur)\<rparr>
                   (map Some xs @ [None]))) =
           bpath c @ line_run_cmds fx fy (cur @ takeWhile def xs) @
             concat (map (line_run_cmds fx fy) (defined_runs def (dropWhile def xs))))"
  using assms
proof (induction xs arbitrary: c)
  case Nil
  then show ?case
    by (auto simp: line_item_def line_mode_segment)
next
  case (Cons x xs)
  show ?case
  proof (cases "def x")
    case True
    have out: "line_item def fx fy \<lparr>l_defined0 = False, l_curve = c\<rparr> (Some x) =
        \<lparr>l_defined0 = True, l_curve = basis_points (basis_line_start c) (pts fx fy [x])\<rparr>"
      using True by (simp add: line_item_def pts_def basis_points_Cons)
    have inside: "line_item def fx fy
          \<lparr>l_defined0 = True, l_curve = basis_points (basis_line_start c) (pts fx fy cur)\<rparr> (Some x) =
        \<lparr>l_defined0 = True, l_curve = basis_points (basis_line_start c) (pts fx fy (cur @ [x]))\<rparr>"
      for cur using True by (simp add: line_item_def pts_def basis_points_snoc)
    show ?thesis
      using Cons.IH [OF Cons.prems] True
      by (simp only: list.map append_Cons foldl_Cons out inside) simp
  next
    case False
    have out: "line_item def fx fy \<lparr>l_defined0 = False, l_curve = c\<rparr> (Some x) =
        \<lparr>l_defined0 = False, l_curve = c\<rparr>"
      using False by (simp add: line_item_def)
    have inside: "line_item def fx fy
          \<lparr>l_defined0 = True, l_curve = basis_points (basis_line_start c) (pts fx fy cur)\<rparr> (Some x) =
        \<lparr>l_defined0 = False, l_curve = basis_line_end (basis_points (basis_line_start c) (pts fx fy cur))\<rparr>"
      for cur using False by (simp add: line_item_def)
    have "bpath (l_curve (foldl (line_item def fx fy)
            \<lparr>l_defined0 = True, l_curve = basis_points (basis_line_start c) (pts fx fy cur)\<rparr>
            (map Some (x # xs) @ [None]))) =
          bpath c @ line_run_cmds fx fy (cur @ takeWhile def (x # xs)) @
            concat (map (line_run_cmds fx fy) (defined_runs def (dropWhile def (x # xs))))"
      if "cur \<noteq> []" for cur
      using Cons.IH [OF line_mode_segment(2) [OF Cons.prems that]] False
      by (simp only: list.map append_Cons foldl_Cons inside) (simp add: line_mode_segment(1) [OF Cons.prems that])
    then show ?thesis
      using Cons.IH [OF Cons.prems] False
      by (simp only: list.map append_Cons foldl_Cons out) simp
  qed
qed

subsection \<open>The area generator\<close>

lemma area_flag_fields [simp]:
  "bline (basis_area_start s) = Some (Num 0)" "bpath (basis_area_start s) = bpath s"
  by (simp_all add: basis_area_start_def)

lemma bpath_basis_area_end: "bpath (basis_area_end s) = bpath s"
  by (simp add: basis_area_end_def)

lemma area_segment:
  assumes "r \<noteq> []"
  shows "bpath (basis_area_end (basis_line_end
           (basis_points (basis_line_start (basis_line_end
              (basis_points (basis_line_start (basis_area_start c)) (pts fx0 fy1 r))))
            (rev (pts fx0 fy0 r))))) =
         bpath c @ area_run_cmds fx0 fy0 fy1 r"
proof -
  have ne: "pts fx0 fy1 r \<noteq> []" "rev (pts fx0 fy0 r) \<noteq> []"
    using assms by (simp_all add: pts_def)
  show ?thesis
    using basis_segment [OF ne(1), of "basis_area_start c"]
      basis_segment [OF ne(2), of "basis_line_end (basis_points (basis_line_start (basis_area_start c)) (pts fx0 fy1 r))"]
    by (simp add: area_run_cmds_def bpath_basis_area_end)
qed

lemma area_fold:
  "bpath (a_curve (foldl (area_item def fx0 fy0 fy1) \<lparr>a_defined0 = False, a_run = run, a_curve = c\<rparr>
                         (map Some xs @ [None]))) =
     bpath c @ concat (map (area_run_cmds fx0 fy0 fy1) (defined_runs def xs)) \<and>
   (\<forall>cur. cur \<noteq> [] \<longrightarrow>
     bpath (a_curve (foldl (area_item def fx0 fy0 fy1)
             \<lparr>a_defined0 = True, a_run = pts fx0 fy0 cur,
              a_curve = basis_points (basis_line_start (basis_area_start c)) (pts fx0 fy1 cur)\<rparr>
             (map Some xs @ [None]))) =
     bpath c @ area_run_cmds fx0 fy0 fy1 (cur @ takeWhile def xs) @
       concat (map (area_run_cmds fx0 fy0 fy1) (defined_runs def (dropWhile def xs))))"
proof (induction xs arbitrary: c run)
  case Nil
  then show ?case
    by (auto simp: area_item_def area_segment)
next
  case (Cons x xs)
  show ?case
  proof (cases "def x")
    case True
    have out: "area_item def fx0 fy0 fy1 \<lparr>a_defined0 = False, a_run = run, a_curve = c\<rparr> (Some x) =
        \<lparr>a_defined0 = True, a_run = pts fx0 fy0 [x],
         a_curve = basis_points (basis_line_start (basis_area_start c)) (pts fx0 fy1 [x])\<rparr>"
      using True by (simp add: area_item_def pts_def basis_points_Cons)
    have inside: "area_item def fx0 fy0 fy1
          \<lparr>a_defined0 = True, a_run = pts fx0 fy0 cur,
           a_curve = basis_points (basis_line_start (basis_area_start c)) (pts fx0 fy1 cur)\<rparr> (Some x) =
        \<lparr>a_defined0 = True, a_run = pts fx0 fy0 (cur @ [x]),
         a_curve = basis_points (basis_line_start (basis_area_start c)) (pts fx0 fy1 (cur @ [x]))\<rparr>"
      for cur using True by (simp add: area_item_def pts_def basis_points_snoc)
    show ?thesis
      using Cons.IH True
      by (simp only: list.map append_Cons foldl_Cons out inside) simp
  next
    case False
    have out: "area_item def fx0 fy0 fy1 \<lparr>a_defined0 = False, a_run = run, a_curve = c\<rparr> (Some x) =
        \<lparr>a_defined0 = False, a_run = run, a_curve = c\<rparr>"
      using False by (simp add: area_item_def)
    have "bpath (a_curve (foldl (area_item def fx0 fy0 fy1)
            \<lparr>a_defined0 = True, a_run = pts fx0 fy0 cur,
             a_curve = basis_points (basis_line_start (basis_area_start c)) (pts fx0 fy1 cur)\<rparr>
            (map Some (x # xs) @ [None]))) =
          bpath c @ area_run_cmds fx0 fy0 fy1 (cur @ takeWhile def (x # xs)) @
            concat (map (area_run_cmds fx0 fy0 fy1) (defined_runs def (dropWhile def (x # xs))))"
      if "cur \<noteq> []" for cur
    proof -
      have inside: "area_item def fx0 fy0 fy1
            \<lparr>a_defined0 = True, a_run = pts fx0 fy0 cur,
             a_curve = basis_points (basis_line_start (basis_area_start c)) (pts fx0 fy1 cur)\<rparr> (Some x) =
          \<lparr>a_defined0 = False, a_run = pts fx0 fy0 cur,
           a_curve = basis_area_end (basis_line_end (basis_points (basis_line_start (basis_line_end
              (basis_points (basis_line_start (basis_area_start c)) (pts fx0 fy1 cur))))
              (rev (pts fx0 fy0 cur))))\<rparr>"
        using False by (simp add: area_item_def)
      show ?thesis
        using Cons.IH False
        by (simp only: list.map append_Cons foldl_Cons inside) (simp add: area_segment [OF that])
    qed
    then show ?thesis
      using Cons.IH False
      by (simp only: list.map append_Cons foldl_Cons out) simp
  qed
qed

subsection \<open>Shape of the commands\<close>

lemma concat_defined_runs: "concat (defined_runs p xs) = filter p xs"
proof (induction p xs rule: defined_runs.induct)
  case (2 p x xs)
  have "filter p xs = takeWhile p xs @ filter p (dropWhile p xs)"
    by (metis filter_append takeWhile_dropWhile_id filter_id_conv set_takeWhileD)
  with 2 show ?case by simp
qed simp

lemma defined_runs_nonempty: "r \<in> set (defined_runs p xs) \<Longrightarrow> r \<noteq> []"
  by (induction p xs rule: defined_runs.induct) (auto split: if_splits)

lemma defined_runs_all:
  assumes "list_all p xs" "xs \<noteq> []"
  shows "defined_runs p xs = [xs]"
proof -
  obtain x xs' where xs: "xs = x # xs'"
    using assms(2) by (cases xs) auto
  have "dropWhile p xs' = []" "takeWhile p xs' = xs'"
    using assms(1) by (simp_all add: xs list_all_iff dropWhile_eq_Nil_conv takeWhile_eq_all_conv)
  then show ?thesis
    using assms(1) by (simp add: xs del: dropWhile_eq_Nil_conv takeWhile_eq_all_conv)
qed

lemma filter_beziers [simp]:
  "filter is_move (beziers ps) = []" "filter is_close (beziers ps) = []"
  by (induction ps rule: beziers.induct) (simp_all add: bezier_cmd_def)

lemma bezier_cmd_kind [simp]: "\<not> is_move (bezier_cmd a b c)" "\<not> is_close (bezier_cmd a b c)"
  by (simp_all add: bezier_cmd_def)

lemma curve_cmds_filter:
  assumes "ps \<noteq> []"
  shows "filter is_move (curve_cmds first cl ps) = filter is_move [first (fst (hd ps)) (snd (hd ps))]"
    and "filter is_close (curve_cmds first cl ps) =
           filter is_close [first (fst (hd ps)) (snd (hd ps))] @ (if cl then [ClosePath] else [])"
  using assms by (induction first cl ps rule: curve_cmds.induct) simp_all

lemma curve_cmds_ends:
  assumes "ps \<noteq> []"
  shows "hd (curve_cmds first cl ps) = first (fst (hd ps)) (snd (hd ps))"
    and "last (curve_cmds first True ps) = ClosePath"
  using assms by (induction first cl ps rule: curve_cmds.induct) simp_all

lemma curve_cmds_last_open:
  "2 \<le> length ps \<Longrightarrow> last (curve_cmds first False ps) = LineTo (fst (last ps)) (snd (last ps))"
  by (induction first False ps rule: curve_cmds.induct) simp_all

subsection \<open>The generators in terms of the runs\<close>

lemma line_gen_runs:
  "line_gen def fx fy data = concat (map (line_run_cmds fx fy) (defined_runs def data))"
  using conjunct1 [OF line_fold [of basis_new def fx fy data]]
  by (simp add: line_gen_def basis_new_def line_mode_def)

lemma area_gen_runs:
  "area_gen def fx0 fy0 fy1 data = concat (map (area_run_cmds fx0 fy0 fy1) (defined_runs def data))"
  using conjunct1 [OF area_fold [of def fx0 fy0 fy1 "[]" basis_new data]]
  by (simp add: area_gen_def basis_new_def)

lemma filter_concat_map: "filter P (concat (map f xs)) = concat (map (\<lambda>x. filter P (f x)) xs)"
  by (induction xs) simp_all

lemma concat_map_if_singleton:
  "concat (map (\<lambda>x. if P x then [a] else []) xs) = map (\<lambda>_. a) (filter P xs)"
  by (induction xs) simp_all

lemma line_run_filter:
  assumes "r \<noteq> []"
  shows "filter is_move (line_run_cmds fx fy r) = [MoveTo (fx (hd r)) (fy (hd r))]"
    and "filter is_close (line_run_cmds fx fy r) = (if length r = 1 then [ClosePath] else [])"
  using assms curve_cmds_filter [of "pts fx fy r" MoveTo "length r = 1"]
  by (simp_all add: line_run_cmds_def pts_def hd_map)

lemma area_run_filter:
  assumes "r \<noteq> []"
  shows "filter is_move (area_run_cmds fx0 fy0 fy1 r) = [MoveTo (fx0 (hd r)) (fy1 (hd r))]"
    and "filter is_close (area_run_cmds fx0 fy0 fy1 r) = [ClosePath]"
  using assms curve_cmds_filter [of "pts fx0 fy1 r" MoveTo False]
    curve_cmds_filter [of "rev (pts fx0 fy0 r)" LineTo True]
  by (simp_all add: area_run_cmds_def pts_def hd_map)

lemma line_gen_hd:
  assumes "list_all def data" "data \<noteq> []"
  shows "hd (line_gen def fx fy data) = MoveTo (fx (hd data)) (fy (hd data))"
proof -
  have "pts fx fy data \<noteq> []"
    using assms(2) by (simp add: pts_def)
  then show ?thesis
    using assms curve_cmds_ends(1)
    by (simp add: line_gen_runs defined_runs_all line_run_cmds_def pts_def hd_map)
qed

lemma line_gen_ends:
  assumes "list_all def data" "2 \<le> length data"
  shows "hd (line_gen def fx fy data) = MoveTo (fx (hd data)) (fy (hd data)) \<and>
         last (line_gen def fx fy data) = LineTo (fx (last data)) (fy (last data))"
proof -
  have ne: "data \<noteq> []" "length data \<noteq> 1"
    using assms(2) by auto
  have "pts fx fy data \<noteq> []"
    using ne by (simp add: pts_def)
  then show ?thesis
    using assms ne curve_cmds_ends(1) curve_cmds_last_open
    by (simp add: line_gen_runs defined_runs_all line_run_cmds_def pts_def hd_map last_map)
qed

lemmas ridge_defs = ridge_line_def ridge_area_def line_gen_runs area_gen_runs

text \<open>C18: the outline of a series (\<open>line(d.values)\<close>) is one clamped
  B-spline subpath per maximal run of numeric values, in order; a \<open>NaN\<close> value
  ends the current subpath.\<close>

theorem ridge_line_segments:
  "ridge_line c data =
     concat (map (line_run_cmds (\<lambda>d. x_scale c (date d)) (\<lambda>d. y_scale c (value_num d)))
                 (defined_runs value_defined data))"
  by (simp add: ridge_defs)

text \<open>C19: the filled area of a series (\<open>area(d.values)\<close>) is, per maximal run
  of numeric values, the B-spline along the values followed by the B-spline
  back along the baseline \<open>y = 0\<close>, closed.\<close>

theorem ridge_area_segments:
  "ridge_area c data =
     concat (map (\<lambda>r. curve_cmds MoveTo False (map (\<lambda>d. (x_scale c (date d), y_scale c (value_num d))) r) @
                      curve_cmds LineTo True (rev (map (\<lambda>d. (x_scale c (date d), Num 0)) r)))
                 (defined_runs value_defined data))"
  by (simp add: ridge_defs area_run_cmds_def [abs_def] pts_def)

text \<open>C20: when every value of a series is a number and it has at least two
  weeks, the outline is exactly the top edge of the filled area: the area is
  the outline followed by the way back along the baseline and \<open>Z\<close>.\<close>

theorem outline_is_area_top:
  assumes "list_all value_defined data" "2 \<le> length data"
  shows "ridge_area c data =
           ridge_line c data @ curve_cmds LineTo True (rev (map (\<lambda>d. (x_scale c (date d), Num 0)) data))"
proof -
  have "data \<noteq> []" "length data \<noteq> 1"
    using assms(2) by auto
  then show ?thesis
    using assms(1)
    by (simp add: ridge_defs defined_runs_all area_run_cmds_def line_run_cmds_def pts_def)
qed

text \<open>C21: the outline has one subpath (one \<open>M\<close>) per maximal run of numeric
  values, starting at the run's first point, and the runs are exactly the
  numeric values in order: a value that is not a number is skipped and splits
  the line.\<close>

theorem ridge_line_subpaths:
  "filter is_move (ridge_line c data) =
     map (\<lambda>r. MoveTo (x_scale c (date (hd r))) (y_scale c (value_num (hd r))))
         (defined_runs value_defined data) \<and>
   concat (defined_runs value_defined data) = filter value_defined data"
  by (simp add: ridge_defs filter_concat_map line_run_filter defined_runs_nonempty
      concat_defined_runs cong: map_cong)

text \<open>C22: every subpath of the filled area is closed: the area has as many
  \<open>Z\<close> as \<open>M\<close> commands, one of each per run of numeric values.\<close>

theorem ridge_area_closed:
  "length (filter is_move (ridge_area c data)) = length (defined_runs value_defined data) \<and>
   length (filter is_close (ridge_area c data)) = length (defined_runs value_defined data)"
proof -
  have "filter is_move (ridge_area c data) =
          map (\<lambda>r. MoveTo (x_scale c (date (hd r))) (y_scale c (value_num (hd r)))) (defined_runs value_defined data)"
       "filter is_close (ridge_area c data) = map (\<lambda>r. ClosePath) (defined_runs value_defined data)"
    by (simp_all add: ridge_defs filter_concat_map area_run_filter defined_runs_nonempty cong: map_cong)
  then show ?thesis by simp
qed

text \<open>C23: the basis spline is clamped: for a series of numbers with at least
  two weeks, the outline starts at the first week's point and ends at the last
  week's point.\<close>

theorem ridge_line_endpoints:
  assumes "list_all value_defined data" "2 \<le> length data"
  shows "hd (ridge_line c data) = MoveTo (x_scale c (date (hd data))) (y_scale c (value_num (hd data))) \<and>
         last (ridge_line c data) = LineTo (x_scale c (date (last data))) (y_scale c (value_num (last data)))"
  using line_gen_ends [OF assms] by (simp add: ridge_line_def)

text \<open>C24: the outline is not always open.  A run of a single numeric value
  (a number between two non-numbers, or a one-week series) is drawn as
  \<open>M x,y Z\<close>; these are exactly the closed subpaths of the outline.\<close>

theorem ridge_line_closed_points:
  "filter is_close (ridge_line c data) =
     map (\<lambda>r. ClosePath) (filter (\<lambda>r. length r = 1) (defined_runs value_defined data))"
  by (simp add: ridge_defs filter_concat_map line_run_filter defined_runs_nonempty
      concat_map_if_singleton cong: map_cong)

theorem outline_is_area_top_witness:
  "list_all value_defined example_week_values \<and> 2 \<le> length example_week_values \<and>
   ridge_area (projr (setup_chart 600 example_series)) example_week_values =
     ridge_line (projr (setup_chart 600 example_series)) example_week_values @
     curve_cmds LineTo True (rev (map (\<lambda>d. (x_scale (projr (setup_chart 600 example_series)) (date d), Num 0))
                                     example_week_values))"
  using outline_is_area_top [of example_week_values "projr (setup_chart 600 example_series)"]
  by (simp add: example_week_values_def value_defined_def)

theorem ridge_line_endpoints_witness:
  "list_all value_defined example_week_values \<and> 2 \<le> length example_week_values \<and>
   hd (ridge_line (projr (setup_chart 600 example_series)) example_week_values) = MoveTo (Num 0) (Num (- 225 / 7)) \<and>
   last (ridge_line (projr (setup_chart 600 example_series)) example_week_values) = LineTo (Num 472) (Num (- 75))"
  using ridge_line_endpoints [of example_week_values "projr (setup_chart 600 example_series)"]
  by (simp add: example_week_values_def value_defined_def scales_eval x_scale_def y_scale_def
      scale_linear_def normalize_real_def interpolate_number_def)

end
