(* ===== verification/Hover.thy ===== *)
theory Hover
  imports Scales
begin

text \<open>
  The hover interaction, \<open>src/main.js\<close> lines 118--128 and 166--187.  The view
  state is what the two handlers write: the opacity of every series group, the
  vertical translate of the axis group \<open>gAxis\<close> and the opacity of the y axis
  (\<open>view\<close>).  At start the groups carry no opacity (drawn at 1), the axis
  group sits at \<open>height\<close> and the y axis has opacity 0 (\<open>hover_init\<close>).
  \<open>mouseenter(d, i)\<close> sets group \<open>e\<close> to 1 when \<open>e === d\<close> and to 0.1
  otherwise, moves the axis to row \<open>i\<close> and shows the y axis
  (\<open>mouseenter\<close>); \<open>mouseleave()\<close> restores the idle values
  (\<open>mouseleave\<close>).  A listener is bound to each group with that group's
  datum and index, so the possible steps are \<open>hover_step\<close>; \<open>hover_reachable\<close>
  are the states of any sequence of pointer events.

  The model records the values each transition animates to: a new transition
  on an element interrupts the running one, so after 500 ms without events the
  displayed values are those of the last handler.  \<open>e === d\<close> compares object
  identity; the model compares the series values, which is the same on data
  whose series are distinct (true of the output of \<open>aggregate\<close>, whose keys
  are distinct).
\<close>

record view =
  group_opacity :: "real list"
  axis_offset :: real
  y_axis_opacity :: real

datatype hover_event = MouseEnter nat | MouseLeave

definition hover_init :: "'a list \<Rightarrow> real \<Rightarrow> view" where
  "hover_init data height =
     \<lparr>group_opacity = map (\<lambda>_. 1) data, axis_offset = height, y_axis_opacity = 0\<rparr>"

definition mouseenter :: "'a list \<Rightarrow> 'a \<Rightarrow> nat \<Rightarrow> view \<Rightarrow> view" where
  "mouseenter data d i v =
     v\<lparr>group_opacity := map (\<lambda>e. if e = d then 1 else 0.1) data,
       axis_offset := row_offset i,
       y_axis_opacity := 1\<rparr>"

definition mouseleave :: "'a list \<Rightarrow> real \<Rightarrow> view \<Rightarrow> view" where
  "mouseleave data height v =
     v\<lparr>group_opacity := map (\<lambda>_. 1) data,
       axis_offset := height,
       y_axis_opacity := 0\<rparr>"

text \<open>Dispatch of one pointer event to the listener of the group it hits.\<close>

fun hover_event_step :: "'a list \<Rightarrow> real \<Rightarrow> view \<Rightarrow> hover_event \<Rightarrow> view option" where
  "hover_event_step data height v (MouseEnter i) =
     (if i < length data then Some (mouseenter data (data ! i) i v) else None)"
| "hover_event_step data height v MouseLeave = Some (mouseleave data height v)"

fun hover_run :: "'a list \<Rightarrow> real \<Rightarrow> view \<Rightarrow> hover_event list \<Rightarrow> view option" where
  "hover_run data height v [] = Some v"
| "hover_run data height v (e # es) =
     (case hover_event_step data height v e of
        None \<Rightarrow> None
      | Some w \<Rightarrow> hover_run data height w es)"

inductive hover_step :: "'a list \<Rightarrow> real \<Rightarrow> view \<Rightarrow> view \<Rightarrow> bool" where
  enter: "i < length data \<Longrightarrow> hover_step data height v (mouseenter data (data ! i) i v)"
| leave: "hover_step data height v (mouseleave data height v)"

inductive hover_reachable :: "'a list \<Rightarrow> real \<Rightarrow> view \<Rightarrow> bool" where
  init: "hover_reachable data height (hover_init data height)"
| step: "hover_reachable data height v \<Longrightarrow> hover_step data height v w \<Longrightarrow>
         hover_reachable data height w"

text \<open>The two shapes a view can have: idle, or focused on one row.\<close>

definition idle_view :: "'a list \<Rightarrow> real \<Rightarrow> view \<Rightarrow> bool" where
  "idle_view data height v \<longleftrightarrow> v = hover_init data height"

definition focused_view :: "'a list \<Rightarrow> nat \<Rightarrow> view \<Rightarrow> bool" where
  "focused_view data i v \<longleftrightarrow>
     i < length data \<and>
     group_opacity v = map (\<lambda>j. if j = i then 1 else 0.1) [0..<length data] \<and>
     axis_offset v = row_offset i \<and> y_axis_opacity v = 1"

definition hover_inv :: "'a list \<Rightarrow> real \<Rightarrow> view \<Rightarrow> bool" where
  "hover_inv data height v \<longleftrightarrow>
     idle_view data height v \<or> (\<exists>i. focused_view data i v)"

inductive_cases hover_step_cases: "hover_step data height v w"

lemma map_eq_nth_index:
  assumes "distinct data" "i < length data"
  shows "map (\<lambda>e. if e = data ! i then 1 else (0.1::real)) data =
         map (\<lambda>j. if j = i then 1 else 0.1) [0..<length data]"
proof (rule nth_equalityI)
  fix j assume "j < length (map (\<lambda>e. if e = data ! i then 1 else (0.1::real)) data)"
  then have j: "j < length data" by simp
  have "data ! j = data ! i \<longleftrightarrow> j = i"
    using assms j by (simp add: nth_eq_iff_index_eq)
  then show "map (\<lambda>e. if e = data ! i then 1 else (0.1::real)) data ! j =
             map (\<lambda>j. if j = i then 1 else 0.1) [0..<length data] ! j"
    using j by simp
qed simp

lemma mouseenter_focused:
  "distinct data \<Longrightarrow> i < length data \<Longrightarrow> focused_view data i (mouseenter data (data ! i) i v)"
  by (simp add: focused_view_def mouseenter_def map_eq_nth_index)

lemma mouseleave_idle: "mouseleave data height v = hover_init data height"
  by (simp add: mouseleave_def hover_init_def)

lemma hover_step_inv:
  "hover_step data height v w \<Longrightarrow> distinct data \<Longrightarrow> hover_inv data height w"
  by (induction rule: hover_step.induct)
     (auto simp: hover_inv_def idle_view_def mouseleave_idle intro: mouseenter_focused)

lemma hover_reachable_inv:
  "hover_reachable data height v \<Longrightarrow> distinct data \<Longrightarrow> hover_inv data height v"
proof (induction rule: hover_reachable.induct)
  case init
  then show ?case by (simp add: hover_inv_def idle_view_def)
next
  case (step v w)
  then show ?case by (blast intro: hover_step_inv)
qed

lemma hover_event_step_iff:
  "hover_event_step data height v e = Some w \<longleftrightarrow>
   (case e of MouseEnter i \<Rightarrow> i < length data \<and> w = mouseenter data (data ! i) i v
            | MouseLeave \<Rightarrow> w = mouseleave data height v)"
  by (cases e) auto

lemma hover_event_step_sound:
  "hover_event_step data height v e = Some w \<Longrightarrow> hover_step data height v w"
  by (cases e) (auto split: if_splits intro: hover_step.intros)

lemma hover_run_reachable:
  "hover_run data height v es = Some w \<Longrightarrow> hover_reachable data height v \<Longrightarrow>
   hover_reachable data height w"
proof (induction es arbitrary: v)
  case Nil
  then show ?case by simp
next
  case (Cons e es)
  then obtain u where u: "hover_event_step data height v e = Some u"
    and rest: "hover_run data height u es = Some w"
    by (auto split: option.splits)
  have "hover_reachable data height u"
    using Cons.prems(2) hover_event_step_sound [OF u] by (rule hover_reachable.step)
  with rest show ?case by (rule Cons.IH)
qed

lemma hover_event_step_state_free:
  "hover_event_step data height v e = Some w \<Longrightarrow> hover_event_step data height v' e = Some w' \<Longrightarrow> w = w'"
  by (cases e) (auto simp: mouseenter_def mouseleave_def split: if_splits)

lemma hover_event_step_defined:
  "(\<exists>w. hover_event_step data height v e = Some w) \<longleftrightarrow> (\<exists>w. hover_event_step data height v' e = Some w)"
  by (cases e) auto

subsection \<open>Properties of the interaction\<close>

text \<open>C13: in every state reachable by pointer events over distinct series the
  chart is either idle, or exactly one row is fully opaque, every other row is
  dimmed to 0.1, the axis sits on that row and the y axis is shown.\<close>

theorem hover_single_focus:
  assumes "hover_reachable data height v" "distinct data"
  shows "v = hover_init data height \<or>
         (\<exists>!i. i < length data \<and> group_opacity v ! i = 1 \<and>
               (\<forall>j<length data. j \<noteq> i \<longrightarrow> group_opacity v ! j = 0.1) \<and>
               axis_offset v = row_offset i \<and> y_axis_opacity v = 1)"
proof -
  have "hover_inv data height v" using assms by (rule hover_reachable_inv)
  then consider "idle_view data height v" | i where "focused_view data i v"
    unfolding hover_inv_def by blast
  then show ?thesis
  proof cases
    case 1
    then show ?thesis by (simp add: idle_view_def)
  next
    case (2 i)
    then have f: "i < length data"
      "group_opacity v = map (\<lambda>j. if j = i then 1 else 0.1) [0..<length data]"
      "axis_offset v = row_offset i" "y_axis_opacity v = 1"
      by (simp_all add: focused_view_def)
    have "\<exists>!i. i < length data \<and> group_opacity v ! i = 1 \<and>
               (\<forall>j<length data. j \<noteq> i \<longrightarrow> group_opacity v ! j = 0.1) \<and>
               axis_offset v = row_offset i \<and> y_axis_opacity v = 1"
    proof (rule ex1I [of _ i])
      show "i < length data \<and> group_opacity v ! i = 1 \<and>
            (\<forall>j<length data. j \<noteq> i \<longrightarrow> group_opacity v ! j = 0.1) \<and>
            axis_offset v = row_offset i \<and> y_axis_opacity v = 1"
        using f by simp
    next
      fix k assume k: "k < length data \<and> group_opacity v ! k = 1 \<and>
            (\<forall>j<length data. j \<noteq> k \<longrightarrow> group_opacity v ! j = 0.1) \<and>
            axis_offset v = row_offset k \<and> y_axis_opacity v = 1"
      show "k = i"
      proof (rule ccontr)
        assume ki: "k \<noteq> i"
        from k have k1: "group_opacity v ! k = 1" and kl: "k < length data" by blast+
        have "group_opacity v ! k = 0.1" using f(2) kl ki by simp
        with k1 show False by simp
      qed
    qed
    then show ?thesis by blast
  qed
qed

text \<open>C14: entering row i of distinct series makes that row fully opaque, dims
  every other row to 0.1, moves the axis group to the row's offset
  \<open>i * step + yRangeMax\<close> and shows the y axis.\<close>

theorem mouseenter_highlights:
  assumes "distinct data" "i < length data" "j < length data"
  shows "group_opacity (mouseenter data (data ! i) i v) ! j = (if j = i then 1 else 0.1) \<and>
         axis_offset (mouseenter data (data ! i) i v) = real i * 15 + 75 \<and>
         y_axis_opacity (mouseenter data (data ! i) i v) = 1"
  using mouseenter_focused [OF assms(1,2), of v] assms(3)
  by (simp add: focused_view_def row_offset_def step_def y_range_max_def)

text \<open>Leaving a row, from any state, restores the idle view: every row
  opaque, the axis back at height, the y axis hidden.\<close>

theorem mouseleave_restores_idle:
  "hover_event_step data height v MouseLeave = Some (hover_init data height)"
  by (simp add: mouseleave_idle)

text \<open>C15: the view after a non-empty sequence of pointer events does not depend
  on the view before it: every handler rewrites all the state it touches.\<close>

theorem hover_history_independent:
  assumes "hover_run data height v es = Some w" "hover_run data height v' es = Some w'" "es \<noteq> []"
  shows "w = w'"
  using assms
proof (induction es arbitrary: v v')
  case Nil
  then show ?case by simp
next
  case (Cons e es)
  obtain u where u: "hover_event_step data height v e = Some u" "hover_run data height u es = Some w"
    using Cons.prems(1) by (auto split: option.splits)
  obtain u' where u': "hover_event_step data height v' e = Some u'" "hover_run data height u' es = Some w'"
    using Cons.prems(2) by (auto split: option.splits)
  have "u = u'" using u(1) u'(1) by (rule hover_event_step_state_free)
  show ?case
  proof (cases "es = []")
    case True
    then show ?thesis using u u' \<open>u = u'\<close> by simp
  next
    case False
    then show ?thesis using Cons.IH [OF u(2) _ False, of u'] u'(2) \<open>u = u'\<close> by simp
  qed
qed

text \<open>C16: in every reachable state of a non-empty chart the axis group lies
  between the first row's baseline \<open>yRangeMax\<close> and \<open>height\<close>.\<close>

theorem axis_within_chart:
  assumes "hover_reachable data (chart_height (length data)) v" "distinct data" "data \<noteq> []"
  shows "y_range_max \<le> axis_offset v \<and> axis_offset v \<le> chart_height (length data)"
proof -
  have "hover_inv data (chart_height (length data)) v" using assms(1,2) by (rule hover_reachable_inv)
  moreover have "y_range_max \<le> chart_height (length data)"
    using assms(3) by (simp add: chart_height_def step_def y_range_max_def Suc_le_eq)
  moreover have "y_range_max \<le> row_offset i \<and> row_offset i \<le> chart_height (length data)"
    if "i < length data" for i
    using that by (simp add: row_offset_def chart_height_def step_def y_range_max_def)
  ultimately show ?thesis
    by (auto simp: hover_inv_def idle_view_def hover_init_def focused_view_def)
qed

theorem hover_single_focus_witness:
  "hover_reachable [''A'', ''B''] 90 (mouseenter [''A'', ''B''] ''B'' 1 (hover_init [''A'', ''B''] 90)) \<and>
   distinct [''A'', ''B''] \<and>
   (mouseenter [''A'', ''B''] ''B'' 1 (hover_init [''A'', ''B''] 90) = hover_init [''A'', ''B''] 90 \<or>
    (\<exists>!i. i < length [''A'', ''B''] \<and>
       group_opacity (mouseenter [''A'', ''B''] ''B'' 1 (hover_init [''A'', ''B''] 90)) ! i = 1 \<and>
       (\<forall>j<length [''A'', ''B'']. j \<noteq> i \<longrightarrow>
          group_opacity (mouseenter [''A'', ''B''] ''B'' 1 (hover_init [''A'', ''B''] 90)) ! j = 0.1) \<and>
       axis_offset (mouseenter [''A'', ''B''] ''B'' 1 (hover_init [''A'', ''B''] 90)) = row_offset i \<and>
       y_axis_opacity (mouseenter [''A'', ''B''] ''B'' 1 (hover_init [''A'', ''B''] 90)) = 1))"
proof -
  have st: "hover_step [''A'', ''B''] 90 (hover_init [''A'', ''B''] 90)
              (mouseenter [''A'', ''B''] ([''A'', ''B''] ! 1) 1 (hover_init [''A'', ''B''] 90))"
    by (rule hover_step.enter) simp
  have h1: "hover_reachable [''A'', ''B''] 90 (mouseenter [''A'', ''B''] ''B'' 1 (hover_init [''A'', ''B''] 90))"
    using hover_reachable.step [OF hover_reachable.init st] by simp
  have h2: "distinct [''A'', ''B'']" by simp
  show ?thesis using h1 h2 hover_single_focus [OF h1 h2] by blast
qed

theorem mouseenter_highlights_witness:
  "distinct [''A'', ''B''] \<and>
   group_opacity (mouseenter [''A'', ''B''] ([''A'', ''B''] ! 1) 1 (hover_init [''A'', ''B''] 90)) ! 0 = 0.1 \<and>
   axis_offset (mouseenter [''A'', ''B''] ([''A'', ''B''] ! 1) 1 (hover_init [''A'', ''B''] 90)) = 90 \<and>
   y_axis_opacity (mouseenter [''A'', ''B''] ([''A'', ''B''] ! 1) 1 (hover_init [''A'', ''B''] 90)) = 1"
proof -
  have h1: "distinct [''A'', ''B'']" by simp
  show ?thesis
    using h1 mouseenter_highlights [OF h1, of 1 0 "hover_init [''A'', ''B''] 90"] by simp
qed

theorem hover_history_independent_witness:
  "hover_run [''A'', ''B''] 90 (hover_init [''A'', ''B''] 90) [MouseEnter 0, MouseLeave] =
     Some (hover_init [''A'', ''B''] 90) \<and>
   hover_run [''A'', ''B''] 90 (mouseenter [''A'', ''B''] ''B'' 1 (hover_init [''A'', ''B''] 90)) [MouseEnter 0, MouseLeave] =
     Some (hover_init [''A'', ''B''] 90)"
proof -
  have h1: "hover_run [''A'', ''B''] 90 (hover_init [''A'', ''B''] 90) [MouseEnter 0, MouseLeave] =
     Some (hover_init [''A'', ''B''] 90)"
    by (simp add: mouseleave_idle)
  have h2: "hover_run [''A'', ''B''] 90 (mouseenter [''A'', ''B''] ''B'' 1 (hover_init [''A'', ''B''] 90))
              [MouseEnter 0, MouseLeave] = Some (hover_init [''A'', ''B''] 90)"
    by (simp add: mouseleave_idle)
  have "hover_init [''A'', ''B''] 90 = hover_init [''A'', ''B''] 90"
    using hover_history_independent [OF h1 h2] by simp
  then show ?thesis using h1 h2 by simp
qed

theorem axis_within_chart_witness:
  "hover_reachable [''A'', ''B''] (chart_height (length [''A'', ''B'']))
     (hover_init [''A'', ''B''] (chart_height (length [''A'', ''B'']))) \<and>
   y_range_max \<le> axis_offset (hover_init [''A'', ''B''] (chart_height (length [''A'', ''B'']))) \<and>
   axis_offset (hover_init [''A'', ''B''] (chart_height (length [''A'', ''B''])))
     \<le> chart_height (length [''A'', ''B''])"
proof -
  have h1: "hover_reachable [''A'', ''B''] (chart_height (length [''A'', ''B'']))
              (hover_init [''A'', ''B''] (chart_height (length [''A'', ''B''])))"
    by (rule hover_reachable.init)
  have h2: "distinct [''A'', ''B'']" by simp
  have h3: "[''A'', ''B''] \<noteq> []" by simp
  show ?thesis using h1 axis_within_chart [OF h1 h2 h3] by blast
qed

end
