(* ===== verification/Render.thy ===== *)
theory Render
  imports Shapes Hover
begin

text \<open>
  The drawing, \<open>src/main.js\<close> lines 97--164: the \<open>viewBox\<close> of the SVG, the
  translated container \<open>g\<close>, the axis group with the hidden y axis, and one
  group per series with its label, filled area, outline and two edge ticks.
  The SVG is modelled as the values the script writes into attributes
  (\<open>frame\<close>, \<open>series_group\<close>, \<open>tick_line\<close>); the tick marks produced by
  d3-axis inside the axis groups are not.  Reading \<open>d.values[0].value\<close> on a
  series without values throws, which is the \<open>Inl\<close> branch of
  \<open>render_group\<close>; the attribute callbacks run in document order, so the
  first such series raises the error (\<open>render_groups\<close>).
\<close>

record tick_line =
  tick_x1 :: real
  tick_y1 :: real
  tick_x2 :: real
  tick_y2 :: jsnum

record series_group =
  sg_offset :: real
  label_x :: real
  label_anchor :: string
  label_text :: string
  area_fill :: rgb
  area_d :: "path_cmd list"
  line_fill :: string
  line_stroke :: string
  line_d :: "path_cmd list"
  tick_left :: tick_line
  tick_right :: tick_line

definition render_group :: "chart \<Rightarrow> nat \<Rightarrow> series \<Rightarrow> js_error + series_group" where
  "render_group c i d =
     (case values_list d of
        [] \<Rightarrow> Inl (TypeError ''d.values[0] is undefined'')
      | v0 # _ \<Rightarrow>
          Inr \<lparr>sg_offset = row_offset i,
               label_x = -4, label_anchor = ''end'', label_text = key d,
               area_fill = color_scale c (sum_num d), area_d = ridge_area c (values_list d),
               line_fill = ''none'', line_stroke = ''#fff'', line_d = ridge_line c (values_list d),
               tick_left = \<lparr>tick_x1 = 0, tick_y1 = 0, tick_x2 = 0, tick_y2 = y_scale c (value_num v0)\<rparr>,
               tick_right = \<lparr>tick_x1 = c_width c, tick_y1 = 0, tick_x2 = c_width c,
                             tick_y2 = y_scale c (value_num (last (values_list d)))\<rparr>\<rparr>)"

fun render_groups :: "chart \<Rightarrow> nat \<Rightarrow> series list \<Rightarrow> js_error + series_group list" where
  "render_groups c i [] = Inr []"
| "render_groups c i (d # ds) =
     (case render_group c i d of
        Inl e \<Rightarrow> Inl e
      | Inr gr \<Rightarrow> (case render_groups c (Suc i) ds of Inl e \<Rightarrow> Inl e | Inr grs \<Rightarrow> Inr (gr # grs)))"

record frame =
  view_box :: "real \<times> real \<times> real \<times> real"
  g_translate :: "real \<times> real"
  axis_translate :: real
  y_axis_hidden_opacity :: real
  groups :: "series_group list"

definition render_chart :: "real \<Rightarrow> series list \<Rightarrow> js_error + frame" where
  "render_chart svgw data =
     (case setup_chart svgw data of
        Inl e \<Rightarrow> Inl e
      | Inr c \<Rightarrow>
          (case render_groups c 0 data of
             Inl e \<Rightarrow> Inl e
           | Inr grs \<Rightarrow>
               Inr \<lparr>view_box = (0, 0, c_svg_width c, c_svg_height c),
                    g_translate = (margin_left margin, margin_top margin),
                    axis_translate = c_height c,
                    y_axis_hidden_opacity = 0,
                    groups = grs\<rparr>))"

text \<open>Two series where the second one starts a week after the first.\<close>

definition example_late_series :: "series list" where
  "example_late_series =
     [\<lparr>key = ''A'', values_list = [\<lparr>name = ''A'', date = Num 0, value_num = Num 3\<rparr>,
                                  \<lparr>name = ''A'', date = Num 1000, value_num = Num 7\<rparr>], sum_num = 10\<rparr>,
      \<lparr>key = ''B'', values_list = [\<lparr>name = ''B'', date = Num 1000, value_num = Num 4\<rparr>], sum_num = 4\<rparr>]"

text \<open>The part of the rendered frame that the hover handlers later write.  The
  drawing (lines 121--128) sets no opacity style on the series groups, so each
  group has the initial value of the CSS property \<open>opacity\<close>, 1, until the
  first \<open>mouseenter\<close>; the axis offset and the y axis' opacity are the
  values lines 107--119 write into the frame.\<close>

definition frame_view :: "'a list \<Rightarrow> frame \<Rightarrow> view" where
  "frame_view data f =
     \<lparr>group_opacity = map (\<lambda>_. 1) data, axis_offset = axis_translate f,
      y_axis_opacity = y_axis_hidden_opacity f\<rparr>"

subsection \<open>Lemmas\<close>

lemma render_groups_eq:
  "render_groups c i ds =
     (if list_all (\<lambda>d. values_list d \<noteq> []) ds
      then Inr (map (\<lambda>k. projr (render_group c (i + k) (ds ! k))) [0..<length ds])
      else Inl (TypeError ''d.values[0] is undefined''))"
proof (induction ds arbitrary: i)
  case Nil
  then show ?case by simp
next
  case (Cons d ds)
  show ?case
  proof (cases "values_list d")
    case Nil
    then show ?thesis by (simp add: render_group_def)
  next
    case (Cons v vs)
    have "map (\<lambda>k. projr (render_group c (i + k) ((d # ds) ! k))) [0..<Suc (length ds)] =
          projr (render_group c i d) # map (\<lambda>k. projr (render_group c (Suc i + k) (ds ! k))) [0..<length ds]"
      by (simp add: map_upt_Suc del: upt_Suc)
    then show ?thesis
      using Cons Cons.IH [of "Suc i"] by (simp add: render_group_def)
  qed
qed


lemma render_group_fields:
  assumes "values_list d \<noteq> []"
  shows "render_group c i d = Inr (projr (render_group c i d))"
    and "sg_offset (projr (render_group c i d)) = row_offset i"
    and "label_text (projr (render_group c i d)) = key d"
    and "area_fill (projr (render_group c i d)) = color_scale c (sum_num d)"
    and "area_d (projr (render_group c i d)) = ridge_area c (values_list d)"
    and "line_d (projr (render_group c i d)) = ridge_line c (values_list d)"
    and "tick_left (projr (render_group c i d)) =
           \<lparr>tick_x1 = 0, tick_y1 = 0, tick_x2 = 0, tick_y2 = y_scale c (value_num (hd (values_list d)))\<rparr>"
    and "tick_right (projr (render_group c i d)) =
           \<lparr>tick_x1 = c_width c, tick_y1 = 0, tick_x2 = c_width c,
            tick_y2 = y_scale c (value_num (last (values_list d)))\<rparr>"
  using assms by (simp_all add: render_group_def split: list.split)

lemma render_chart_Inr:
  assumes "render_chart w data = Inr f"
  obtains c where "setup_chart w data = Inr c" "list_all (\<lambda>d. values_list d \<noteq> []) data"
    "groups f = map (\<lambda>k. projr (render_group c k (data ! k))) [0..<length data]"
    "axis_translate f = c_height c" "y_axis_hidden_opacity f = 0"
proof (cases "setup_chart w data")
  case (Inl e)
  then show ?thesis using assms by (simp add: render_chart_def)
next
  case (Inr c)
  have ok: "list_all (\<lambda>d. values_list d \<noteq> []) data"
    using assms Inr render_groups_eq [of c 0 data] by (simp add: render_chart_def split: if_splits)
  have "f = \<lparr>view_box = (0, 0, c_svg_width c, c_svg_height c),
             g_translate = (margin_left margin, margin_top margin),
             axis_translate = c_height c, y_axis_hidden_opacity = 0,
             groups = map (\<lambda>k. projr (render_group c k (data ! k))) [0..<length data]\<rparr>"
    using assms Inr ok render_groups_eq [of c 0 data] by (simp add: render_chart_def)
  then show ?thesis
    using Inr ok that [of c] by simp
qed

text \<open>C25: for the first series (the one that fixes the x domain), the two edge
  ticks meet its outline: when its values are numbers, it has at least two
  weeks and its first and last dates differ, the outline starts at the top of
  the left tick and ends at the top of the right tick.\<close>

theorem first_series_ticks_meet_outline:
  assumes "render_chart w data = Inr f" "data \<noteq> []"
    and "list_all value_defined (values_list (hd data))" "2 \<le> length (values_list (hd data))"
    and "date (hd (values_list (hd data))) = Num a" "date (last (values_list (hd data))) = Num b" "a \<noteq> b"
  shows "hd (line_d (hd (groups f))) =
           MoveTo (Num (tick_x2 (tick_left (hd (groups f))))) (tick_y2 (tick_left (hd (groups f)))) \<and>
         last (line_d (hd (groups f))) =
           LineTo (Num (tick_x2 (tick_right (hd (groups f))))) (tick_y2 (tick_right (hd (groups f))))"
proof -
  obtain c where c: "setup_chart w data = Inr c" "list_all (\<lambda>d. values_list d \<noteq> []) data"
    "groups f = map (\<lambda>k. projr (render_group c k (data ! k))) [0..<length data]"
    using assms(1) by (rule render_chart_Inr)
  have ne: "values_list (hd data) \<noteq> []"
    using assms(4) by auto
  have g: "hd (groups f) = projr (render_group c 0 (hd data))"
    using c(3) assms(2) by (simp add: hd_map hd_conv_nth)
  have dom: "x_domain c = (Num a, Num b)" "c_width c = chart_width w"
    using c(1) assms(5,6) by (auto simp: setup_chart_Inr)
  have x: "x_scale c (Num a) = Num 0" "x_scale c (Num b) = Num (c_width c)"
    using dom assms(7) by (simp_all add: x_scale_def scale_linear_Num)
  show ?thesis
    unfolding g render_group_fields(6-8) [OF ne]
    using line_gen_ends [OF assms(3,4)] x assms(5,6) by (simp add: ridge_line_def)
qed

text \<open>C26: the edge ticks of a series are drawn at the chart's edges whatever
  weeks the series covers.  When a series' first date lies after the first date
  of the first series (which fixes the x domain), its left tick stands at
  x = 0 while its outline starts at the x of that first date, strictly right of
  the tick, at the tick's height: the tick is detached from the outline.\<close>

theorem edge_tick_detached:
  assumes "render_chart w data = Inr f" "k < length data"
    and "list_all value_defined (values_list (data ! k))"
    and "date (hd (values_list (hd data))) = Num a" "date (last (values_list (hd data))) = Num b" "a < b"
    and "date (hd (values_list (data ! k))) = Num a'" "a < a'" "0 < chart_width w"
  shows "tick_x2 (tick_left (groups f ! k)) = 0 \<and>
         hd (line_d (groups f ! k)) =
           MoveTo (Num ((a' - a) / (b - a) * chart_width w)) (tick_y2 (tick_left (groups f ! k))) \<and>
         0 < (a' - a) / (b - a) * chart_width w"
proof -
  obtain c where c: "setup_chart w data = Inr c" "list_all (\<lambda>d. values_list d \<noteq> []) data"
    "groups f = map (\<lambda>k. projr (render_group c k (data ! k))) [0..<length data]"
    using assms(1) by (rule render_chart_Inr)
  have ne: "values_list (data ! k) \<noteq> []"
    using c(2) assms(2) by (simp add: list_all_length)
  have g: "groups f ! k = projr (render_group c k (data ! k))"
    using c(3) assms(2) by simp
  have dom: "x_domain c = (Num a, Num b)" "c_width c = chart_width w"
    using c(1) assms(4,5) by (auto simp: setup_chart_Inr)
  have x: "x_scale c (Num a') = Num ((a' - a) / (b - a) * chart_width w)"
    using dom assms(6) by (simp add: x_scale_def scale_linear_Num)
  have pos: "0 < (a' - a) / (b - a) * chart_width w"
    using assms(6,8,9) by simp
  show ?thesis
    unfolding g render_group_fields(6,7) [OF ne]
    using line_gen_hd [OF assms(3) ne] x assms(7) pos by (simp add: ridge_line_def)
qed

theorem edge_tick_detached_witness:
  "render_chart 600 example_late_series = Inr (projr (render_chart 600 example_late_series)) \<and>
   tick_x2 (tick_left (groups (projr (render_chart 600 example_late_series)) ! 1)) = 0 \<and>
   hd (line_d (groups (projr (render_chart 600 example_late_series)) ! 1)) =
     MoveTo (Num 472) (tick_y2 (tick_left (groups (projr (render_chart 600 example_late_series)) ! 1)))"
proof -
  have h1: "render_chart 600 example_late_series = Inr (projr (render_chart 600 example_late_series))"
    by (simp add: example_late_series_def render_chart_def setup_chart_def render_group_def)
  have h2: "1 < length example_late_series" by (simp add: example_late_series_def)
  have h3: "list_all value_defined (values_list (example_late_series ! 1))"
    by (simp add: example_late_series_def value_defined_def)
  have h4: "date (hd (values_list (hd example_late_series))) = Num 0"
    and h5: "date (last (values_list (hd example_late_series))) = Num 1000"
    and h7: "date (hd (values_list (example_late_series ! 1))) = Num 1000"
    by (simp_all add: example_late_series_def)
  have h6: "(0::real) < 1000" and h8: "(0::real) < 1000" by simp_all
  have h9: "0 < chart_width 600" and cw: "chart_width 600 = 472"
    by (simp_all add: chart_width_def margin_def)
  show ?thesis
    using h1 edge_tick_detached [OF h1 h2 h3 h4 h5 h6 h7 h8 h9] unfolding cw by simp
qed

theorem first_series_ticks_meet_outline_witness:
  "render_chart 600 example_series = Inr (projr (render_chart 600 example_series)) \<and>
   example_series \<noteq> [] \<and>
   list_all value_defined (values_list (hd example_series)) \<and>
   2 \<le> length (values_list (hd example_series)) \<and>
   date (hd (values_list (hd example_series))) = Num 0 \<and>
   date (last (values_list (hd example_series))) = Num 1000 \<and> (0::real) \<noteq> 1000 \<and>
   hd (line_d (hd (groups (projr (render_chart 600 example_series))))) =
     MoveTo (Num (tick_x2 (tick_left (hd (groups (projr (render_chart 600 example_series)))))))
            (tick_y2 (tick_left (hd (groups (projr (render_chart 600 example_series))))))"
proof -
  have r: "render_chart 600 example_series = Inr (projr (render_chart 600 example_series))"
    by (simp add: example_series_def render_chart_def setup_chart_def render_group_def)
  have h: "example_series \<noteq> []" "list_all value_defined (values_list (hd example_series))"
    "2 \<le> length (values_list (hd example_series))"
    "date (hd (values_list (hd example_series))) = Num 0"
    "date (last (values_list (hd example_series))) = Num 1000"
    by (simp_all add: example_series_def value_defined_def)
  have n: "(0::real) \<noteq> 1000"
    by simp
  show ?thesis
    using r h first_series_ticks_meet_outline [OF r h n] by simp
qed

text \<open>C28: the hover model starts from the rendered frame, and leaving a row
  brings the page back to it: with \<open>height\<close> the chart's height, the
  initial view and the view after \<open>mouseleave\<close> are both the state the
  drawing code wrote (every group opaque, the axis group at \<open>height\<close>, the y
  axis hidden).\<close>

theorem mouseleave_restores_rendered_frame:
  assumes "render_chart w data = Inr f"
  shows "hover_init data (c_height (projr (setup_chart w data))) = frame_view data f \<and>
         mouseleave data (c_height (projr (setup_chart w data))) v = frame_view data f"
proof -
  obtain c where c: "setup_chart w data = Inr c"
    "axis_translate f = c_height c" "y_axis_hidden_opacity f = 0"
    using assms by (rule render_chart_Inr)
  then show ?thesis
    by (simp add: hover_init_def mouseleave_def frame_view_def)
qed

theorem mouseleave_restores_rendered_frame_witness:
  "render_chart 600 example_series = Inr (projr (render_chart 600 example_series)) \<and>
   mouseleave example_series (c_height (projr (setup_chart 600 example_series)))
     (hover_init example_series 90) =
   frame_view example_series (projr (render_chart 600 example_series))"
proof -
  have r: "render_chart 600 example_series = Inr (projr (render_chart 600 example_series))"
    by (simp add: example_series_def render_chart_def setup_chart_def render_group_def)
  show ?thesis
    using r mouseleave_restores_rendered_frame [OF r, of "hover_init example_series 90"] by simp
qed

end
