(* ===== verification/Axis.thy ===== *)
theory Axis
  imports Scales
begin

text \<open>
  The y axis, \<open>src/main.js\<close> lines 75--84: \<open>d3.axisLeft(y).ticks(4)\<close> asks
  the linear scale for its ticks, which is d3-array's \<open>ticks(0, max, 4)\<close>
  (\<open>d3_ticks\<close>, with \<open>tickIncrement\<close> as \<open>tick_increment\<close>); the axis
  draws one \<open>.tick\<close> per value in that order, and
  \<open>g.select(".tick").remove()\<close> removes the first one (\<open>y_axis_labels\<close>).
  \<open>Math.log(x) / Math.LN10\<close> and \<open>Math.pow(10, p)\<close> are the exact \<open>log 10\<close>
  and \<open>powr\<close>; d3 compares the error with \<open>sqrt 50\<close>, \<open>sqrt 10\<close>,
  \<open>sqrt 2\<close> so that a rounding of the logarithm does not change the step.
  The x axis is in \<open>TimeTicks\<close> and \<open>AxisDom\<close>, the axes' groups and
  the y labels' number format in \<open>AxisDom\<close> and \<open>YAxisDom\<close>.
\<close>

definition tick_mult :: "real \<Rightarrow> real" where
  "tick_mult err = (if sqrt 50 \<le> err then 10 else if sqrt 10 \<le> err then 5 else if sqrt 2 \<le> err then 2 else 1)"

definition tick_increment :: "real \<Rightarrow> real \<Rightarrow> real \<Rightarrow> real" where
  "tick_increment start stop cnt =
     (let step = (stop - start) / max 0 cnt;
          power = \<lfloor>log 10 step\<rfloor>;
          err = step / 10 powr of_int power
      in if 0 \<le> power then tick_mult err * 10 ^ nat power
         else - (10 ^ nat (- power)) / tick_mult err)"

definition ticks_of_step :: "real \<Rightarrow> real \<Rightarrow> real \<Rightarrow> jsnum list" where
  "ticks_of_step lo hi st =
     (if 0 < st then
        (let s = \<lceil>lo / st\<rceil>; e = \<lfloor>hi / st\<rfloor>
         in map (\<lambda>i. Num ((of_int s + real i) * st)) [0..<nat (e - s + 1)])
      else
        (let s = \<lfloor>lo * st\<rfloor>; e = \<lceil>hi * st\<rceil>
         in map (\<lambda>i. Num ((of_int s - real i) / st)) [0..<nat (s - e + 1)]))"

definition d3_ticks :: "jsnum \<Rightarrow> jsnum \<Rightarrow> real \<Rightarrow> jsnum list" where
  "d3_ticks start stop cnt =
     (case (start, stop) of
        (Num a, Num b) \<Rightarrow>
          if a = b \<and> 0 < cnt then [Num a]
          else if cnt \<le> 0 then []
          else
            (let lo = min a b; hi = max a b;
                 st = tick_increment lo hi cnt;
                 ts = (if st = 0 then [] else ticks_of_step lo hi st)
             in if b < a then rev ts else ts)
      | _ \<Rightarrow> [])"

definition y_axis_ticks :: "chart \<Rightarrow> jsnum list" where
  "y_axis_ticks c = d3_ticks (fst (y_domain c)) (snd (y_domain c)) 4"

definition y_axis_labels :: "chart \<Rightarrow> jsnum list" where
  "y_axis_labels c = drop 1 (y_axis_ticks c)"

text \<open>A series whose weekly totals are all 0.\<close>

definition example_flat_series :: "series list" where
  "example_flat_series =
     [\<lparr>key = ''A'', values_list = [\<lparr>name = ''A'', date = Num 0, value_num = Num 0\<rparr>,
                                  \<lparr>name = ''A'', date = Num 1000, value_num = Num 0\<rparr>], sum_num = 0\<rparr>]"

subsection \<open>Lemmas\<close>

lemma tick_mult_pos: "0 < tick_mult err"
  by (simp add: tick_mult_def)

lemma tick_increment_nonzero: "tick_increment lo hi cnt \<noteq> 0"
  using tick_mult_pos [of "(hi - lo) / max 0 cnt / 10 powr of_int \<lfloor>log 10 ((hi - lo) / max 0 cnt)\<rfloor>"]
  by (simp add: tick_increment_def Let_def)

lemma ticks_of_step_bounds:
  assumes "st \<noteq> 0" "t \<in> set (ticks_of_step lo hi st)"
  shows "\<exists>r. t = Num r \<and> lo \<le> r \<and> r \<le> hi"
proof (cases "0 < st")
  case True
  define s where "s = \<lceil>lo / st\<rceil>"
  define e where "e = \<lfloor>hi / st\<rfloor>"
  obtain i where i: "i < nat (e - s + 1)" "t = Num ((of_int s + real i) * st)"
    using assms(2) True by (auto simp: ticks_of_step_def Let_def s_def e_def)
  have "lo / st \<le> of_int s" "of_int e \<le> hi / st"
    by (simp_all add: s_def e_def)
  moreover have "of_int s + real i \<le> of_int e"
    using i(1) by linarith
  ultimately have "lo / st \<le> of_int s + real i" "of_int s + real i \<le> hi / st"
    by linarith+
  then show ?thesis
    using True i(2) by (auto simp: pos_divide_le_eq pos_le_divide_eq)
next
  case False
  then have neg: "st < 0" using assms(1) by simp
  define s where "s = \<lfloor>lo * st\<rfloor>"
  define e where "e = \<lceil>hi * st\<rceil>"
  obtain i where i: "i < nat (s - e + 1)" "t = Num ((of_int s - real i) / st)"
    using assms(2) False by (auto simp: ticks_of_step_def Let_def s_def e_def)
  have "of_int s \<le> lo * st" "hi * st \<le> of_int e"
    by (simp_all add: s_def e_def)
  moreover have "of_int e \<le> of_int s - real i"
    using i(1) by linarith
  ultimately have "of_int s - real i \<le> lo * st" "hi * st \<le> of_int s - real i"
    by linarith+
  then show ?thesis
    using neg i(2) by (auto simp: neg_divide_le_eq neg_le_divide_eq)
qed

lemma ticks_of_step_distinct:
  assumes "st \<noteq> 0"
  shows "distinct (ticks_of_step lo hi st)"
proof -
  have "inj_on (\<lambda>i. Num ((a + real i) * st)) A" "inj_on (\<lambda>i. Num ((a - real i) / st)) A" for a :: real and A
    using assms by (auto simp: inj_on_def)
  then show ?thesis
    by (simp add: ticks_of_step_def Let_def distinct_map)
qed

lemma ticks_of_step_zero_lo:
  assumes "st \<noteq> 0" "0 < hi"
  shows "ticks_of_step 0 hi st \<noteq> [] \<and> hd (ticks_of_step 0 hi st) = Num 0"
proof (cases "0 < st")
  case True
  have "0 \<le> \<lfloor>hi / st\<rfloor>"
    using True assms(2) by simp
  then have n: "nat (\<lfloor>hi / st\<rfloor> + 1) = Suc (nat \<lfloor>hi / st\<rfloor>)"
    by (simp add: nat_add_distrib del: zero_le_floor)
  show ?thesis
    using True by (simp add: ticks_of_step_def n upt_conv_Cons del: upt_Suc)
next
  case False
  then have "hi * st < 0"
    using assms by (simp add: mult_pos_neg)
  define e where "e = \<lceil>hi * st\<rceil>"
  have "e \<le> 0"
    using \<open>hi * st < 0\<close> by (simp add: e_def)
  then have n: "nat (1 - e) = Suc (nat (- e))"
    by simp
  show ?thesis
    using False by (simp add: ticks_of_step_def e_def [symmetric] n upt_conv_Cons del: upt_Suc)
qed

lemma ticks_of_step_zero_hi:
  assumes "st \<noteq> 0" "lo < 0"
  shows "ticks_of_step lo 0 st \<noteq> [] \<and> last (ticks_of_step lo 0 st) = Num 0"
proof (cases "0 < st")
  case True
  define s where "s = \<lceil>lo / st\<rceil>"
  have s: "s \<le> 0"
    using True assms(2) by (simp add: s_def divide_neg_pos less_imp_le)
  then have n: "nat (0 - s + 1) = Suc (nat (- s))" "real (nat (- s)) = - of_int s"
    by simp_all
  then show ?thesis
    using True by (simp add: ticks_of_step_def Let_def last_map s_def [symmetric] del: upt_Suc)
next
  case False
  then have neg: "st < 0" using assms(1) by simp
  define s where "s = \<lfloor>lo * st\<rfloor>"
  have "0 < lo * st"
    using neg assms(2) by (simp add: mult_neg_neg)
  then have s: "0 \<le> s"
    by (simp add: s_def)
  then have n: "nat (s - 0 + 1) = Suc (nat s)" "real (nat s) = of_int s"
    by simp_all
  then show ?thesis
    using False by (simp add: ticks_of_step_def Let_def last_map s_def [symmetric] del: upt_Suc)
qed

lemma floor_log_eq:
  assumes "10 powr of_int k \<le> x" "x < 10 powr (of_int k + 1)"
  shows "\<lfloor>log 10 x\<rfloor> = k"
proof -
  have "0 < (10::real) powr of_int k"
    by simp
  then have x: "0 < x"
    using assms(1) by linarith
  have "of_int k \<le> log 10 x" "log 10 x < of_int k + 1"
    using assms x by (simp_all add: le_log_iff log_less_iff)
  then show ?thesis
    by (simp add: floor_eq_iff)
qed

lemma sqrt_le_iff_sq:
  assumes "0 \<le> e"
  shows "sqrt a \<le> e \<longleftrightarrow> a \<le> e\<^sup>2"
proof -
  have "sqrt (e\<^sup>2) = e"
    using assms by simp
  then show ?thesis
    by (metis real_sqrt_le_iff)
qed

lemma distinct_hd_tl:
  assumes "xs \<noteq> []" "hd xs = a" "distinct xs"
  shows "xs = a # tl xs" "a \<notin> set (tl xs)"
  using assms by (cases xs; simp)+

lemma d3_ticks_zero_to:
  assumes "m \<noteq> 0"
  defines "ts \<equiv> ticks_of_step (min 0 m) (max 0 m) (tick_increment (min 0 m) (max 0 m) 4)"
  shows "d3_ticks (Num 0) (Num m) 4 = (if m < 0 then rev ts else ts)"
    and "distinct (d3_ticks (Num 0) (Num m) 4)"
    and "d3_ticks (Num 0) (Num m) 4 \<noteq> [] \<and> hd (d3_ticks (Num 0) (Num m) 4) = Num 0"
    and "set (d3_ticks (Num 0) (Num m) 4) = set ts"
proof -
  note st = tick_increment_nonzero [of "min 0 m" "max 0 m" 4]
  show eq: "d3_ticks (Num 0) (Num m) 4 = (if m < 0 then rev ts else ts)"
    using assms(1) by (simp add: d3_ticks_def ts_def Let_def tick_increment_nonzero)
  show "distinct (d3_ticks (Num 0) (Num m) 4)"
    unfolding eq ts_def by (simp add: ticks_of_step_distinct tick_increment_nonzero)
  show "set (d3_ticks (Num 0) (Num m) 4) = set ts"
    unfolding eq by simp
  show "d3_ticks (Num 0) (Num m) 4 \<noteq> [] \<and> hd (d3_ticks (Num 0) (Num m) 4) = Num 0"
  proof (cases "m < 0")
    case True
    then show ?thesis
      using ticks_of_step_zero_hi [OF st, of m] unfolding eq ts_def by (simp add: hd_rev)
  next
    case False
    then show ?thesis
      using ticks_of_step_zero_lo [OF st, of m] assms(1) unfolding eq ts_def by simp
  qed
qed

text \<open>C29: the tick that \<open>g.select(".tick").remove()\<close> deletes is always the
  zero tick: for a y domain \<open>[0, m]\<close> with \<open>m \<noteq> 0\<close> the ticks are \<open>0\<close>
  followed by the labels shown, and every label shown is a number other than
  0 inside the domain.\<close>

theorem y_axis_hides_zero:
  assumes "y_domain c = (Num 0, Num m)" "m \<noteq> 0"
  shows "y_axis_ticks c = Num 0 # y_axis_labels c \<and>
         (\<forall>t \<in> set (y_axis_labels c). \<exists>r. t = Num r \<and> r \<noteq> 0 \<and> min 0 m \<le> r \<and> r \<le> max 0 m)"
proof -
  let ?ts = "d3_ticks (Num 0) (Num m) 4"
  have ticks: "y_axis_ticks c = ?ts" "y_axis_labels c = tl ?ts"
    using assms(1) by (simp_all add: y_axis_ticks_def y_axis_labels_def drop_Suc)
  note z = d3_ticks_zero_to [OF assms(2)]
  have split: "?ts = Num 0 # tl ?ts" "Num 0 \<notin> set (tl ?ts)"
    using distinct_hd_tl [of ?ts "Num 0"] z(2,3) by simp_all
  have "\<exists>r. t = Num r \<and> r \<noteq> 0 \<and> min 0 m \<le> r \<and> r \<le> max 0 m" if "t \<in> set (tl ?ts)" for t
  proof -
    have "t \<in> set (ticks_of_step (min 0 m) (max 0 m) (tick_increment (min 0 m) (max 0 m) 4))"
      using that z(4) list.set_sel(2) [of ?ts] z(3) by auto
    then obtain r where "t = Num r" "min 0 m \<le> r" "r \<le> max 0 m"
      using ticks_of_step_bounds [OF tick_increment_nonzero] by blast
    moreover have "r \<noteq> 0"
      using split(2) that \<open>t = Num r\<close> by auto
    ultimately show ?thesis by blast
  qed
  then show ?thesis
    using ticks split(1) by simp
qed

text \<open>On the two-series example (largest value 7) the y axis asks for
  the ticks 0, 2, 4, 6 (\<open>tickIncrement(0, 7, 4)\<close> is 2) and shows 2, 4, 6.\<close>

theorem y_axis_labels_example:
  "y_axis_ticks (projr (setup_chart 600 example_series)) = [Num 0, Num 2, Num 4, Num 6] \<and>
   y_axis_labels (projr (setup_chart 600 example_series)) = [Num 2, Num 4, Num 6]"
proof -
  have yd: "y_domain (projr (setup_chart 600 example_series)) = (Num 0, Num 7)"
    by (simp add: scales_eval)
  have lg: "\<lfloor>log 10 (7 / 4 :: real)\<rfloor> = 0"
    by (rule floor_log_eq) simp_all
  have sq: "\<not> sqrt 50 \<le> (7 / 4 :: real)" "\<not> sqrt 10 \<le> (7 / 4 :: real)" "sqrt 2 \<le> (7 / 4 :: real)"
    by (subst sqrt_le_iff_sq, simp, simp add: power2_eq_square)+
  have m: "tick_mult (7 / 4) = 2"
    by (simp only: tick_mult_def sq if_False if_True)
  have ti: "tick_increment 0 7 4 = 2"
    by (simp add: tick_increment_def lg m)
  have fl: "\<lfloor>(7 :: real) / 2\<rfloor> = 3"
    by (simp add: floor_eq_iff)
  have "ticks_of_step 0 7 2 = [Num 0, Num 2, Num 4, Num 6]"
    by (simp add: ticks_of_step_def fl upt_conv_Cons)
  then show ?thesis
    by (simp add: y_axis_labels_def y_axis_ticks_def yd d3_ticks_def ti)
qed

text \<open>When the largest value is 0, or no value is a number (the domain's
  end is \<open>NaN\<close>), the y axis shows no label at all: the only tick is 0 and
  it is the one removed, or there are no ticks.\<close>

theorem y_axis_no_labels_degenerate:
  assumes "fst (y_domain c) = Num 0" "snd (y_domain c) = Num 0 \<or> snd (y_domain c) = NaN"
  shows "y_axis_labels c = []"
  using assms by (cases "y_domain c") (auto simp: y_axis_labels_def y_axis_ticks_def d3_ticks_def)

theorem y_axis_hides_zero_witness:
  "y_domain (projr (setup_chart 600 example_series)) = (Num 0, Num 7) \<and> (7::real) \<noteq> 0 \<and>
   y_axis_ticks (projr (setup_chart 600 example_series)) =
     Num 0 # y_axis_labels (projr (setup_chart 600 example_series))"
proof -
  have yd: "y_domain (projr (setup_chart 600 example_series)) = (Num 0, Num 7)"
    by (simp add: scales_eval)
  have n: "(7::real) \<noteq> 0"
    by simp
  show ?thesis
    using yd y_axis_hides_zero [OF yd n] by simp
qed

theorem y_axis_no_labels_degenerate_witness:
  "fst (y_domain (projr (setup_chart 600 example_flat_series))) = Num 0 \<and>
   (snd (y_domain (projr (setup_chart 600 example_flat_series))) = Num 0 \<or>
    snd (y_domain (projr (setup_chart 600 example_flat_series))) = NaN) \<and>
   y_axis_labels (projr (setup_chart 600 example_flat_series)) = []"
proof -
  have yd: "y_domain (projr (setup_chart 600 example_flat_series)) = (Num 0, Num 0)"
    by (simp add: example_flat_series_def setup_chart_def y_max_def d3_max_def)
  then have h: "fst (y_domain (projr (setup_chart 600 example_flat_series))) = Num 0"
      "snd (y_domain (projr (setup_chart 600 example_flat_series))) = Num 0 \<or>
       snd (y_domain (projr (setup_chart 600 example_flat_series))) = NaN"
    by simp_all
  show ?thesis
    using h y_axis_no_labels_degenerate [OF h] by simp
qed

end
