(* ===== verification/UtcDate.thy ===== *)
theory UtcDate
  imports Prelude
begin

text \<open>
  ECMAScript time values (ECMA-262, \<open>Date\<close> objects), as used by d3-time's
  UTC intervals behind \<open>d3.scaleUtc\<close> (\<open>src/main.js\<close> lines 38--44 and
  65--73).  A time value is an integer number of milliseconds since the epoch;
  \<open>TimeClip\<close>'s bound of \<open>8.64e15\<close> ms is not modelled.  The abstract
  operations keep the specification's names: \<open>Day\<close>, \<open>TimeWithinDay\<close>,
  \<open>DayFromYear\<close>, \<open>YearFromTime\<close> (here computed by a search from a lower
  estimate, \<open>year_search\<close>, whose result is proved to be the specification's
  largest year), \<open>MonthFromTime\<close>, \<open>DateFromTime\<close>, \<open>WeekDay\<close>,
  \<open>MakeTime\<close>, \<open>MakeDay\<close>, \<open>MakeDate\<close>, and the \<open>setUTC*\<close> methods
  d3-time calls.  The lemmas: the year arithmetic (one year's step of
  \<open>DayFromYear\<close>, the bounds of the search), the round trip between day
  numbers and calendar dates, the previous and next day of a date, and
  closed forms of the setters on time values.
\<close>

definition ms_per_day :: int where
  "ms_per_day = 86400000"

definition day_of :: "int \<Rightarrow> int" where
  "day_of t = t div ms_per_day"

definition time_within_day :: "int \<Rightarrow> int" where
  "time_within_day t = t mod ms_per_day"

definition day_from_year :: "int \<Rightarrow> int" where
  "day_from_year y = 365 * (y - 1970) + (y - 1969) div 4 - (y - 1901) div 100 + (y - 1601) div 400"

definition leap_year :: "int \<Rightarrow> bool" where
  "leap_year y \<longleftrightarrow> (y mod 4 = 0 \<and> y mod 100 \<noteq> 0) \<or> y mod 400 = 0"

definition days_in_year :: "int \<Rightarrow> int" where
  "days_in_year y = (if leap_year y then 366 else 365)"

function year_search :: "int \<Rightarrow> int \<Rightarrow> int" where
  "year_search d y = (if day_from_year (y + 1) \<le> d then year_search d (y + 1) else y)"
  by pat_completeness auto
termination
proof (relation "measure (\<lambda>(d, y). nat (d - day_from_year y))")
  show "wf (measure (\<lambda>(d, y). nat (d - day_from_year y)))"
    by simp
next
  fix d y :: int
  assume le: "day_from_year (y + 1) \<le> d"
  have e: "y + 1 - 1969 = (y - 1969) + 1" "y + 1 - 1901 = (y - 1901) + 1" "y + 1 - 1601 = (y - 1601) + 1"
    "y + 1 - 1970 = (y - 1970) + 1"
    by simp_all
  have k: "(1::int) < 4" "(1::int) < 100" "(1::int) < 400"
    by simp_all
  note b = div_succ_bounds [OF k(1), of "y - 1969"] div_succ_bounds [OF k(2), of "y - 1901"]
    div_succ_bounds [OF k(3), of "y - 1601"]
  have lin: "365 * x + a - b + c < 365 * (x + 1) + a' - b' + c'"
    if "a \<le> a'" "b' \<le> b + 1" "c \<le> c'" for x a a' b b' c c' :: int
    using that by (simp add: distrib_left)
  have "day_from_year y < day_from_year (y + 1)"
    unfolding day_from_year_def e by (rule lin [OF b(1) b(4) b(5)])
  then show "((d, y + 1), d, y) \<in> measure (\<lambda>(d, y). nat (d - day_from_year y))"
    using le by simp
qed

definition year_estimate :: "int \<Rightarrow> int" where
  "year_estimate d = 1970 + (if 0 \<le> d then d div 366 else d div 365)"

definition year_from_day :: "int \<Rightarrow> int" where
  "year_from_day d = year_search d (year_estimate d)"

definition year_from_time :: "int \<Rightarrow> int" where
  "year_from_time t = year_from_day (day_of t)"

definition in_leap :: "int \<Rightarrow> int" where
  "in_leap y = (if leap_year y then 1 else 0)"

definition month_starts :: "int \<Rightarrow> int list" where
  "month_starts l = [0, 31, 59 + l, 90 + l, 120 + l, 151 + l, 181 + l, 212 + l, 243 + l, 273 + l, 304 + l, 334 + l]"

definition days_in_month :: "int \<Rightarrow> nat \<Rightarrow> int" where
  "days_in_month l m = [31, 28 + l, 31, 30, 31, 30, 31, 31, 30, 31, 30, 31] ! m"

definition month_from_dwy :: "int \<Rightarrow> int \<Rightarrow> nat" where
  "month_from_dwy l w =
     (if w < 31 then 0 else if w < 59 + l then 1 else if w < 90 + l then 2
      else if w < 120 + l then 3 else if w < 151 + l then 4 else if w < 181 + l then 5
      else if w < 212 + l then 6 else if w < 243 + l then 7 else if w < 273 + l then 8
      else if w < 304 + l then 9 else if w < 334 + l then 10 else 11)"

definition day_within_year :: "int \<Rightarrow> int" where
  "day_within_year d = d - day_from_year (year_from_day d)"

definition month_from_day :: "int \<Rightarrow> nat" where
  "month_from_day d = month_from_dwy (in_leap (year_from_day d)) (day_within_year d)"

definition date_from_day :: "int \<Rightarrow> int" where
  "date_from_day d =
     day_within_year d - month_starts (in_leap (year_from_day d)) ! month_from_day d + 1"

definition week_day :: "int \<Rightarrow> int" where
  "week_day t = (day_of t + 4) mod 7"

definition hour_from_time :: "int \<Rightarrow> int" where
  "hour_from_time t = (t div 3600000) mod 24"

definition min_from_time :: "int \<Rightarrow> int" where
  "min_from_time t = (t div 60000) mod 60"

definition sec_from_time :: "int \<Rightarrow> int" where
  "sec_from_time t = (t div 1000) mod 60"

definition ms_from_time :: "int \<Rightarrow> int" where
  "ms_from_time t = t mod 1000"

definition make_time :: "int \<Rightarrow> int \<Rightarrow> int \<Rightarrow> int \<Rightarrow> int" where
  "make_time h m s ms = h * 3600000 + m * 60000 + s * 1000 + ms"

definition make_day :: "int \<Rightarrow> int \<Rightarrow> int \<Rightarrow> int" where
  "make_day y m dt =
     (let ym = y + m div 12; mn = nat (m mod 12)
      in day_from_year ym + month_starts (in_leap ym) ! mn + dt - 1)"

definition make_date :: "int \<Rightarrow> int \<Rightarrow> int" where
  "make_date day tm = day * ms_per_day + tm"

text \<open>The getters and setters d3-time uses, on a time value \<open>t\<close>.\<close>

definition get_utc_full_year :: "int \<Rightarrow> int" where
  "get_utc_full_year t = year_from_time t"

definition get_utc_month :: "int \<Rightarrow> int" where
  "get_utc_month t = int (month_from_day (day_of t))"

definition get_utc_date :: "int \<Rightarrow> int" where
  "get_utc_date t = date_from_day (day_of t)"

definition set_utc_date :: "int \<Rightarrow> int \<Rightarrow> int" where
  "set_utc_date t dt =
     make_date (make_day (get_utc_full_year t) (get_utc_month t) dt) (time_within_day t)"

definition set_utc_month :: "int \<Rightarrow> int \<Rightarrow> int \<Rightarrow> int" where
  "set_utc_month t m dt = make_date (make_day (get_utc_full_year t) m dt) (time_within_day t)"

definition set_utc_full_year :: "int \<Rightarrow> int \<Rightarrow> int" where
  "set_utc_full_year t y =
     make_date (make_day y (get_utc_month t) (get_utc_date t)) (time_within_day t)"

definition set_utc_hours0 :: "int \<Rightarrow> int" where
  "set_utc_hours0 t = make_date (day_of t) (make_time 0 0 0 0)"

definition set_utc_minutes0 :: "int \<Rightarrow> int" where
  "set_utc_minutes0 t = make_date (day_of t) (make_time (hour_from_time t) 0 0 0)"

definition set_utc_seconds0 :: "int \<Rightarrow> int" where
  "set_utc_seconds0 t =
     make_date (day_of t) (make_time (hour_from_time t) (min_from_time t) 0 0)"

subsection \<open>Years\<close>

lemma leap_days:
  "365 + (if y mod 4 = 0 then 1 else 0) - (if y mod 100 = 0 then 1 else 0) + (if y mod 400 = 0 then 1 else 0)
     = days_in_year (y::int)"
proof -
  have "y mod 400 = 0 \<Longrightarrow> y mod 100 = 0" "y mod 100 = 0 \<Longrightarrow> y mod 4 = 0"
    using dvd_trans [of 100 400 y] dvd_trans [of 4 100 y] by (simp_all add: mod_eq_0_iff_dvd)
  then show ?thesis
    by (auto simp: days_in_year_def leap_year_def)
qed

lemma day_from_year_step: "day_from_year (y + 1) = day_from_year y + days_in_year y"
proof -
  have e: "y + 1 - 1969 = (y - 1969) + 1" "y + 1 - 1901 = (y - 1901) + 1" "y + 1 - 1601 = (y - 1601) + 1"
    "y + 1 - 1970 = (y - 1970) + 1"
    by simp_all
  have m: "(y - 1969 + 1) mod 4 = y mod 4" "(y - 1901 + 1) mod 100 = y mod 100"
    "(y - 1601 + 1) mod 400 = y mod 400"
    using mod_mult_self1 [of y "-492" 4] mod_mult_self1 [of y "-19" 100] mod_mult_self1 [of y "-4" 400] by simp_all
  have k: "(1::int) < 4" "(1::int) < 100" "(1::int) < 400"
    by simp_all
  note s = div_succ_int [OF k(1), of "y - 1969"] div_succ_int [OF k(2), of "y - 1901"]
    div_succ_int [OF k(3), of "y - 1601"]
  have lin: "365 * (x + 1) + (a + i) - (b + j) + (c + l) = 365 * x + a - b + c + (365 + i - j + l)"
    for x a b c i j l :: int
    by (simp add: algebra_simps)
  show ?thesis
    unfolding day_from_year_def e s m lin leap_days ..
qed

lemma days_in_year_bounds: "365 \<le> days_in_year y" "days_in_year y \<le> 366"
  by (simp_all add: days_in_year_def)

lemma day_from_year_add:
  "365 * int k \<le> day_from_year (a + int k) - day_from_year a \<and>
   day_from_year (a + int k) - day_from_year a \<le> 366 * int k"
proof (induction k)
  case 0
  then show ?case by simp
next
  case (Suc k)
  have eq: "a + int (Suc k) = a + int k + 1"
    by simp
  have "day_from_year (a + int (Suc k)) = day_from_year (a + int k) + days_in_year (a + int k)"
    unfolding eq by (rule day_from_year_step)
  then show ?case
    using Suc days_in_year_bounds [of "a + int k"] by simp
qed

lemma day_from_year_mono:
  assumes "a \<le> b"
  shows "365 * (b - a) \<le> day_from_year b - day_from_year a"
    and "day_from_year b - day_from_year a \<le> 366 * (b - a)"
  using day_from_year_add [of "nat (b - a)" a] assms by simp_all

lemma day_from_year_strict: "a < b \<Longrightarrow> day_from_year a < day_from_year b"
  using day_from_year_mono(1) [of a b] by simp

lemma year_estimate_le: "day_from_year (year_estimate d) \<le> d"
proof (cases "0 \<le> d")
  case True
  have "day_from_year (1970 + d div 366) \<le> 366 * (d div 366)"
    using day_from_year_mono(2) [of 1970 "1970 + d div 366"] True by (simp add: day_from_year_def)
  also have "\<dots> \<le> d"
    by simp
  finally show ?thesis using True by (simp add: year_estimate_def)
next
  case False
  have "365 * (- (d div 365)) \<le> - day_from_year (1970 + d div 365)"
    using day_from_year_mono(1) [of "1970 + d div 365" 1970] False by (simp add: day_from_year_def)
  moreover have "365 * (d div 365) \<le> d"
    by simp
  ultimately show ?thesis using False by (simp add: year_estimate_def)
qed

lemma year_search_bounds:
  "day_from_year y \<le> d \<Longrightarrow>
   day_from_year (year_search d y) \<le> d \<and> d < day_from_year (year_search d y + 1)"
  by (induction d y rule: year_search.induct) (subst year_search.simps, simp)

declare year_search.simps [simp del]

lemma year_from_day_bounds:
  "day_from_year (year_from_day d) \<le> d \<and> d < day_from_year (year_from_day d + 1)"
  unfolding year_from_day_def by (rule year_search_bounds [OF year_estimate_le])

lemma year_from_day_unique:
  assumes "day_from_year y \<le> d" "d < day_from_year (y + 1)"
  shows "year_from_day d = y"
proof -
  note b = year_from_day_bounds [of d]
  have "\<not> y < year_from_day d"
    using assms(2) b day_from_year_strict [of y "year_from_day d"]
      day_from_year_mono(1) [of "y + 1" "year_from_day d"] by (cases "y + 1 = year_from_day d") auto
  moreover have "\<not> year_from_day d < y"
    using assms(1) b day_from_year_mono(1) [of "year_from_day d + 1" y] by (cases "year_from_day d + 1 = y") auto
  ultimately show ?thesis by simp
qed

lemma in_leap_cases: "in_leap y = 0 \<or> in_leap y = 1"
  by (simp add: in_leap_def)

lemma less_12_cases:
  "(m::nat) < 12 \<Longrightarrow> m = 0 \<or> m = 1 \<or> m = 2 \<or> m = 3 \<or> m = 4 \<or> m = 5 \<or> m = 6 \<or> m = 7 \<or>
     m = 8 \<or> m = 9 \<or> m = 10 \<or> m = 11"
  by (simp add: numeral_eq_Suc less_Suc_eq)

lemma month_from_dwy_bounds:
  assumes "l = 0 \<or> l = 1" "0 \<le> w" "w < 365 + l"
  shows "month_from_dwy l w < 12 \<and> month_starts l ! month_from_dwy l w \<le> w \<and>
         w < month_starts l ! month_from_dwy l w + days_in_month l (month_from_dwy l w)"
  using assms unfolding month_from_dwy_def month_starts_def days_in_month_def
  by (elim disjE) (simp_all split: if_split)

lemma month_from_dwy_in:
  assumes "l = 0 \<or> l = 1" "m < 12" "1 \<le> dt" "dt \<le> days_in_month l m"
  shows "month_from_dwy l (month_starts l ! m + dt - 1) = m"
  using less_12_cases [OF assms(2)] assms(1,3,4) unfolding month_from_dwy_def month_starts_def days_in_month_def
  by (elim disjE; simp)

lemma month_end_le:
  assumes "l = 0 \<or> l = 1" "m < 12"
  shows "month_starts l ! m + days_in_month l m \<le> 365 + l"
  using less_12_cases [OF assms(2)] assms(1) unfolding month_starts_def days_in_month_def
  by (elim disjE; simp)

lemma month_starts_nonneg:
  assumes "0 \<le> l" "k < 12"
  shows "0 \<le> month_starts l ! k"
proof -
  have "\<forall>x\<in>set (month_starts l). 0 \<le> x"
    using assms(1) by (simp add: month_starts_def)
  moreover have "month_starts l ! k \<in> set (month_starts l)"
    using assms(2) by (intro nth_mem) (simp add: month_starts_def)
  ultimately show ?thesis by blast
qed

lemma days_in_year_in_leap: "days_in_year y = 365 + in_leap y"
  by (simp add: days_in_year_def in_leap_def)

lemma day_within_year_bounds:
  "0 \<le> day_within_year d \<and> day_within_year d < 365 + in_leap (year_from_day d)"
  using year_from_day_bounds [of d] day_from_year_step [of "year_from_day d"]
  by (simp add: day_within_year_def days_in_year_in_leap)

lemma month_from_day_bounds:
  "month_from_day d < 12 \<and>
   month_starts (in_leap (year_from_day d)) ! month_from_day d \<le> day_within_year d \<and>
   day_within_year d < month_starts (in_leap (year_from_day d)) ! month_from_day d +
                       days_in_month (in_leap (year_from_day d)) (month_from_day d)"
  unfolding month_from_day_def
  using month_from_dwy_bounds [OF in_leap_cases] day_within_year_bounds [of d] by blast

lemma make_day_in_year:
  assumes "0 \<le> m" "m < 12"
  shows "make_day y m dt = day_from_year y + month_starts (in_leap y) ! nat m + dt - 1"
  using assms by (simp add: make_day_def)

subsection \<open>Calendar dates\<close>

lemma make_day_of_decode:
  "make_day (year_from_day d) (int (month_from_day d)) (date_from_day d) = d"
proof -
  have "month_from_day d < 12"
    using month_from_day_bounds [of d] by simp
  then show ?thesis
    by (simp add: make_day_in_year date_from_day_def day_within_year_def)
qed

lemma decode_make_day:
  assumes v: "0 \<le> m" "m < 12" "1 \<le> dt" "dt \<le> days_in_month (in_leap y) (nat m)"
  shows "year_from_day (make_day y m dt) = y \<and> int (month_from_day (make_day y m dt)) = m \<and>
         date_from_day (make_day y m dt) = dt"
proof -
  have nm: "nat m < 12"
    using v by (simp add: nat_less_iff)
  have md: "make_day y m dt = day_from_year y + month_starts (in_leap y) ! nat m + dt - 1"
    using v by (simp add: make_day_in_year)
  have il: "0 \<le> in_leap y"
    by (simp add: in_leap_def)
  have "month_starts (in_leap y) ! nat m + days_in_month (in_leap y) (nat m) \<le> 365 + in_leap y"
    "0 \<le> month_starts (in_leap y) ! nat m"
    by (rule month_end_le [OF in_leap_cases [of y] nm], rule month_starts_nonneg [OF il nm])
  then have y: "year_from_day (make_day y m dt) = y"
    using v day_from_year_step [of y] unfolding md
    by (intro year_from_day_unique) (simp_all add: days_in_year_in_leap)
  have w: "day_within_year (make_day y m dt) = month_starts (in_leap y) ! nat m + dt - 1"
    by (simp only: day_within_year_def y) (simp add: md)
  have mo: "month_from_day (make_day y m dt) = nat m"
    unfolding month_from_day_def w y using v by (intro month_from_dwy_in [OF in_leap_cases nm]) simp_all
  show ?thesis
    using mo v by (simp add: y date_from_day_def w)
qed

subsection \<open>Stepping by one day\<close>

lemma days_in_month_bounds:
  assumes "l = 0 \<or> l = 1" "m < 12"
  shows "28 \<le> days_in_month l m \<and> days_in_month l m \<le> 31"
  using less_12_cases [OF assms(2)] assms(1) unfolding days_in_month_def
  by (elim disjE; simp)

lemma month_starts_succ:
  assumes "l = 0 \<or> l = 1" "m < 11"
  shows "month_starts l ! Suc m = month_starts l ! m + days_in_month l m"
proof -
  have "m < 12" using assms(2) by simp
  show ?thesis
    using less_12_cases [OF \<open>m < 12\<close>] assms unfolding month_starts_def days_in_month_def
    by (elim disjE; simp)
qed

lemma month_starts_pos:
  assumes "l = 0 \<or> l = 1" "m < 12" "0 < m"
  shows "0 < month_starts l ! m"
  using less_12_cases [OF assms(2)] assms(1,3) unfolding month_starts_def
  by (elim disjE; simp)

lemma date_from_day_bounds:
  "1 \<le> date_from_day d \<and> date_from_day d \<le> 31"
proof -
  have "days_in_month (in_leap (year_from_day d)) (month_from_day d) \<le> 31"
    using days_in_month_bounds [OF in_leap_cases] month_from_day_bounds [of d] by blast
  then show ?thesis
    using month_from_day_bounds [of d] by (simp add: date_from_day_def)
qed

lemma make_day_shift: "make_day y m (dt + k) = make_day y m dt + k"
  by (simp add: make_day_def Let_def)

lemma date_pred:
  assumes "date_from_day d \<noteq> 1"
  shows "date_from_day (d - 1) = date_from_day d - 1 \<and> month_from_day (d - 1) = month_from_day d"
proof -
  let ?y = "year_from_day d" and ?m = "int (month_from_day d)" and ?dt = "date_from_day d"
  have "d - 1 = make_day ?y ?m (?dt - 1)"
    using make_day_shift [of ?y ?m "?dt - 1" 1] make_day_of_decode [of d] by simp
  moreover have "0 \<le> ?m" "?m < 12" "1 \<le> ?dt - 1"
    "?dt - 1 \<le> days_in_month (in_leap ?y) (nat ?m)"
    using month_from_day_bounds [of d] date_from_day_bounds [of d] assms
    by (simp_all add: date_from_day_def)
  ultimately show ?thesis
    using decode_make_day [of ?m "?dt - 1" ?y] by simp
qed

lemma date_succ: "date_from_day (d + 1) = 1 \<or> date_from_day (d + 1) = date_from_day d + 1"
proof (cases "date_from_day (d + 1) = 1")
  case False
  then show ?thesis
    using date_pred [of "d + 1"] by simp
qed simp

lemma month_start_decode:
  "date_from_day (d + 1 - date_from_day d) = 1 \<and>
   month_from_day (d + 1 - date_from_day d) = month_from_day d"
proof -
  let ?y = "year_from_day d" and ?m = "int (month_from_day d)" and ?dt = "date_from_day d"
  have "d + 1 - ?dt = make_day ?y ?m 1"
    using make_day_shift [of ?y ?m 1 "?dt - 1"] make_day_of_decode [of d] by simp
  moreover have "1 \<le> days_in_month (in_leap ?y) (nat ?m)"
    using days_in_month_bounds [OF in_leap_cases, of "month_from_day d" ?y] month_from_day_bounds [of d]
    by simp
  ultimately show ?thesis
    using decode_make_day [of ?m 1 ?y] month_from_day_bounds [of d] by simp
qed

lemma month_first_pred:
  assumes "date_from_day d = 1" "0 < month_from_day d"
  shows "month_from_day (d - 1) = month_from_day d - 1"
proof -
  let ?y = "year_from_day d" and ?k = "month_from_day d - 1"
  let ?l = "in_leap ?y"
  have "month_from_day d < 12"
    using month_from_day_bounds [of d] by blast
  then have k: "?k < 11" "Suc ?k = month_from_day d"
    using assms(2) by arith+
  have "d = day_from_year ?y + month_starts ?l ! Suc ?k"
    using make_day_of_decode [of d] month_from_day_bounds [of d] assms(1)
    unfolding k(2) by (simp add: make_day_in_year)
  then have "d - 1 = make_day ?y (int ?k) (days_in_month ?l ?k)"
    using month_starts_succ [OF in_leap_cases k(1)] k(1) by (simp add: make_day_in_year)
  moreover have "1 \<le> days_in_month ?l ?k"
    using days_in_month_bounds [OF in_leap_cases, of ?k ?y] k(1) by simp
  ultimately show ?thesis
    using decode_make_day [of "int ?k" "days_in_month ?l ?k" ?y] k(1) by simp
qed

lemma month_first_next:
  assumes "0 \<le> m" "m < 12"
  shows "date_from_day (make_day y (m + 1) 1) = 1 \<and>
         (int (month_from_day (make_day y (m + 1) 1)) = m + 1 \<or> month_from_day (make_day y (m + 1) 1) = 0)"
proof (cases "m + 1 < 12")
  case True
  have "nat (m + 1) < 12"
    using True assms by (simp add: nat_less_iff)
  then have "1 \<le> days_in_month (in_leap y) (nat (m + 1))"
    using days_in_month_bounds [OF in_leap_cases, of "nat (m + 1)" y] by simp
  then show ?thesis
    using decode_make_day [of "m + 1" 1 y] assms True by simp
next
  case False
  then have "m + 1 = 12" using assms by simp
  then have "make_day y (m + 1) 1 = make_day (y + 1) 0 1"
    by (simp add: make_day_def)
  moreover have "1 \<le> days_in_month (in_leap (y + 1)) (nat 0)"
    using days_in_month_bounds [OF in_leap_cases, of 0 "y + 1"] by simp
  ultimately show ?thesis
    using decode_make_day [of 0 1 "y + 1"] by simp
qed

subsection \<open>Time values\<close>

lemma set_utc_hours0_eq: "set_utc_hours0 t = day_of t * ms_per_day"
  by (simp add: set_utc_hours0_def make_date_def make_time_def)

lemma minute_floor_eq: "set_utc_seconds0 t = t - t mod 60000"
proof -
  define q where "q = t div 60000"
  have "q = 60 * (q div 60) + q mod 60" by simp
  moreover have "q div 60 = t div 3600000"
    unfolding q_def by (simp add: zdiv_zmult2_eq [symmetric])
  moreover have "(t div 3600000) div 24 = t div 86400000"
    by (simp add: zdiv_zmult2_eq [symmetric])
  moreover have "t div 3600000 = 24 * ((t div 3600000) div 24) + (t div 3600000) mod 24"
    by simp
  moreover have "t - t mod 60000 = 60000 * q"
    unfolding q_def by (simp add: minus_mod_eq_mult_div)
  ultimately show ?thesis
    unfolding set_utc_seconds0_def make_date_def make_time_def day_of_def ms_per_day_def
      hour_from_time_def min_from_time_def q_def [symmetric]
    by linarith
qed

lemma hour_floor_eq: "set_utc_minutes0 t = t - t mod 3600000"
proof -
  have "(t div 3600000) div 24 = t div 86400000"
    by (simp add: zdiv_zmult2_eq [symmetric])
  moreover have "t div 3600000 = 24 * ((t div 3600000) div 24) + (t div 3600000) mod 24"
    by simp
  moreover have "t - t mod 3600000 = 3600000 * (t div 3600000)"
    by (simp add: minus_mod_eq_mult_div)
  ultimately show ?thesis
    unfolding set_utc_minutes0_def make_date_def make_time_def day_of_def ms_per_day_def
      hour_from_time_def
    by linarith
qed

lemma time_within_day_bounds: "0 \<le> time_within_day t \<and> time_within_day t < ms_per_day"
  by (simp add: time_within_day_def ms_per_day_def)

lemma day_of_make_date:
  assumes "0 \<le> tm" "tm < ms_per_day"
  shows "day_of (make_date d tm) = d"
  using assms by (simp add: day_of_def make_date_def ms_per_day_def)

lemma day_of_start: "day_of (d * ms_per_day) = d"
  by (simp add: day_of_def ms_per_day_def)

lemma day_of_start_pred: "day_of (d * ms_per_day - 1) = d - 1"
proof -
  have "d * ms_per_day - 1 = make_date (d - 1) (ms_per_day - 1)"
    by (simp add: make_date_def algebra_simps)
  then show ?thesis
    by (simp add: day_of_make_date ms_per_day_def)
qed

lemma make_date_decomp: "make_date (day_of t) (time_within_day t) = t"
  by (simp add: make_date_def day_of_def time_within_day_def ms_per_day_def)

lemma set_utc_date_eq: "set_utc_date t dt = t + (dt - get_utc_date t) * ms_per_day"
proof -
  let ?y = "get_utc_full_year t" and ?m = "get_utc_month t" and ?d = "get_utc_date t"
  have "make_day ?y ?m dt = make_day ?y ?m ?d + (dt - ?d)"
    using make_day_shift [of ?y ?m ?d "dt - ?d"] by simp
  also have "make_day ?y ?m ?d = day_of t"
    unfolding get_utc_full_year_def year_from_time_def get_utc_month_def get_utc_date_def
    by (rule make_day_of_decode)
  finally have e: "make_day ?y ?m dt = day_of t + (dt - ?d)" .
  have "make_date (day_of t + (dt - ?d)) (time_within_day t) = t + (dt - ?d) * ms_per_day"
    using make_date_decomp [of t] by (simp add: make_date_def algebra_simps)
  then show ?thesis
    by (simp only: set_utc_date_def e)
qed

end
