(* ===== verification/TimeTicks.thy ===== *)
theory TimeTicks
  imports Axis UtcDate "HOL-Library.Monad_Syntax"
begin

text \<open>
  The x axis, \<open>src/main.js\<close> lines 65--73: \<open>d3.axisBottom(x).ticks(width / 80)\<close>
  on the UTC time scale \<open>x\<close>.  The scale's \<open>ticks(count)\<close> (d3-scale 2.2,
  \<open>calendar\<close>) picks an interval from a table by the target duration
  \<open>|t1 - t0| / count\<close> (\<open>tick_interval_choice\<close>), then lists the
  interval's boundaries with \<open>interval.range(t0, t1 + 1)\<close> (\<open>time_range\<close>).
  The intervals are d3-time's UTC ones (\<open>time_unit\<close>: \<open>floor\<close>,
  \<open>offset\<close>, \<open>field\<close>), and \<open>interval.every(step)\<close> gives either the unit
  itself, a filter keeping the boundaries whose field is a multiple of the
  step, or the special millisecond and year intervals (\<open>time_interval\<close>).
  The filter's loops and the range loop may run forever in general: they are
  \<open>partial_function (option)\<close>, \<open>None\<close> standing for not returning.
  The lemmas prove that they return for the intervals the table can choose
  (\<open>iv_ok\<close>): \<open>filter_floor_term\<close> and \<open>filter_next_term\<close> reduce
  termination to a measure that each failing test decreases, instantiated
  with the second, minute or hour within its range, the date within the
  month, and the month within the year; the month filter's \<open>offset\<close> loop
  keeps the first of the month (\<open>iv_aligned\<close>).  The range loop is read
  by its fixpoint induction rule for the order and bounds of its output.
\<close>

datatype time_unit = UMillisecond | USecond | UMinute | UHour | UDay | UWeek | UMonth | UYear

fun unit_floor :: "time_unit \<Rightarrow> int \<Rightarrow> int" where
  "unit_floor UMillisecond t = t"
| "unit_floor USecond t = t - ms_from_time t"
| "unit_floor UMinute t = set_utc_seconds0 t"
| "unit_floor UHour t = set_utc_minutes0 t"
| "unit_floor UDay t = set_utc_hours0 t"
| "unit_floor UWeek t = set_utc_hours0 (set_utc_date t (get_utc_date t - (week_day t + 7) mod 7))"
| "unit_floor UMonth t = set_utc_hours0 (set_utc_date t 1)"
| "unit_floor UYear t = set_utc_hours0 (set_utc_month t 0 1)"

fun unit_offset :: "time_unit \<Rightarrow> int \<Rightarrow> int \<Rightarrow> int" where
  "unit_offset UMillisecond t s = t + s"
| "unit_offset USecond t s = t + s * 1000"
| "unit_offset UMinute t s = t + s * 60000"
| "unit_offset UHour t s = t + s * 3600000"
| "unit_offset UDay t s = set_utc_date t (get_utc_date t + s)"
| "unit_offset UWeek t s = set_utc_date t (get_utc_date t + s * 7)"
| "unit_offset UMonth t s = set_utc_month t (get_utc_month t + s) (get_utc_date t)"
| "unit_offset UYear t s = set_utc_full_year t (get_utc_full_year t + s)"

fun unit_field :: "time_unit \<Rightarrow> (int \<Rightarrow> int) option" where
  "unit_field USecond = Some sec_from_time"
| "unit_field UMinute = Some min_from_time"
| "unit_field UHour = Some hour_from_time"
| "unit_field UDay = Some (\<lambda>t. get_utc_date t - 1)"
| "unit_field UMonth = Some get_utc_month"
| "unit_field UYear = Some get_utc_full_year"
| "unit_field _ = None"

text \<open>\<open>interval.count(0, t)\<close> for the units without a field.\<close>

definition unit_count0 :: "time_unit \<Rightarrow> int \<Rightarrow> int" where
  "unit_count0 u t =
     (case u of UWeek \<Rightarrow> (unit_floor UWeek t - unit_floor UWeek 0) div 604800000
      | _ \<Rightarrow> unit_floor u t - unit_floor u 0)"

definition every_test :: "time_unit \<Rightarrow> int \<Rightarrow> int \<Rightarrow> bool" where
  "every_test u s t =
     (case unit_field u of Some f \<Rightarrow> f t mod s = 0 | None \<Rightarrow> unit_count0 u t mod s = 0)"

datatype time_interval = Plain time_unit | Filtered time_unit int | MsEvery int | YearEvery int

definition every :: "time_unit \<Rightarrow> real \<Rightarrow> time_interval option" where
  "every u k =
     (let s = \<lfloor>k\<rfloor>
      in if s \<le> 0 then None
         else if u = UYear then Some (YearEvery s)
         else if s = 1 then Some (Plain u)
         else if u = UMillisecond then Some (MsEvery s)
         else Some (Filtered u s))"

partial_function (option) filter_floor :: "time_unit \<Rightarrow> int \<Rightarrow> int \<Rightarrow> int option" where
  "filter_floor u s t =
     (let t1 = unit_floor u t in if every_test u s t1 then Some t1 else filter_floor u s (t1 - 1))"

partial_function (option) filter_next :: "time_unit \<Rightarrow> int \<Rightarrow> int \<Rightarrow> int option" where
  "filter_next u s t =
     (let t1 = unit_offset u t 1 in if every_test u s t1 then Some t1 else filter_next u s t1)"

fun iv_floor :: "time_interval \<Rightarrow> int \<Rightarrow> int option" where
  "iv_floor (Plain u) t = Some (unit_floor u t)"
| "iv_floor (Filtered u s) t = filter_floor u s t"
| "iv_floor (MsEvery k) t = Some ((t div k) * k)"
| "iv_floor (YearEvery k) t =
     Some (set_utc_hours0 (set_utc_month (set_utc_full_year t ((get_utc_full_year t div k) * k)) 0 1))"

fun iv_next :: "time_interval \<Rightarrow> int \<Rightarrow> int option" where
  "iv_next (Plain u) t = Some (unit_offset u t 1)"
| "iv_next (Filtered u s) t = filter_next u s t"
| "iv_next (MsEvery k) t = Some (t + k)"
| "iv_next (YearEvery k) t = Some (set_utc_full_year t (get_utc_full_year t + k))"

text \<open>\<open>new Date(x)\<close> truncates its argument towards zero.\<close>

definition js_trunc :: "real \<Rightarrow> int" where
  "js_trunc r = (if 0 \<le> r then \<lfloor>r\<rfloor> else \<lceil>r\<rceil>)"

definition iv_ceil :: "time_interval \<Rightarrow> real \<Rightarrow> int option" where
  "iv_ceil iv r = do { a \<leftarrow> iv_floor iv (js_trunc (r - 1)); b \<leftarrow> iv_next iv a; iv_floor iv b }"

partial_function (option) range_loop :: "time_interval \<Rightarrow> real \<Rightarrow> int \<Rightarrow> int list option" where
  "range_loop iv stop t =
     do { a \<leftarrow> iv_next iv t; b \<leftarrow> iv_floor iv a;
          if t < b \<and> real_of_int b < stop
          then do { rest \<leftarrow> range_loop iv stop b; Some (t # rest) }
          else Some [t] }"

definition time_range :: "time_interval \<Rightarrow> real \<Rightarrow> real \<Rightarrow> int list option" where
  "time_range iv start stop =
     do { s \<leftarrow> iv_ceil iv start; if real_of_int s < stop then range_loop iv stop s else Some [] }"

definition tick_intervals :: "(time_unit \<times> int \<times> real) list" where
  "tick_intervals =
     [(USecond, 1, 1000), (USecond, 5, 5000), (USecond, 15, 15000), (USecond, 30, 30000),
      (UMinute, 1, 60000), (UMinute, 5, 300000), (UMinute, 15, 900000), (UMinute, 30, 1800000),
      (UHour, 1, 3600000), (UHour, 3, 10800000), (UHour, 6, 21600000), (UHour, 12, 43200000),
      (UDay, 1, 86400000), (UDay, 2, 172800000), (UWeek, 1, 604800000),
      (UMonth, 1, 2592000000), (UMonth, 3, 7776000000), (UYear, 1, 31536000000)]"

definition tick_step :: "real \<Rightarrow> real \<Rightarrow> real \<Rightarrow> real" where
  "tick_step start stop cnt =
     (let step0 = \<bar>stop - start\<bar> / max 0 cnt
      in if step0 = 0 then 0
         else (let step1 = 10 powr of_int \<lfloor>log 10 step0\<rfloor>
               in (if stop < start then - 1 else 1) * (step1 * tick_mult (step0 / step1))))"

definition tick_interval_choice :: "real \<Rightarrow> real \<Rightarrow> real \<Rightarrow> time_interval option" where
  "tick_interval_choice cnt t0 t1 =
     (let target = \<bar>t1 - t0\<bar> / cnt;
          durs = map (\<lambda>(u, s, d). d) tick_intervals;
          i = bisect_right durs target 0 (length durs)
      in if i = length durs then every UYear (tick_step (t0 / 31536000000) (t1 / 31536000000) cnt)
         else if 0 < i then
           (let j = (if target / durs ! (i - 1) < durs ! i / target then i - 1 else i)
            in every (fst (tick_intervals ! j)) (real_of_int (fst (snd (tick_intervals ! j)))))
         else every UMillisecond (max (tick_step t0 t1 cnt) 1))"

definition x_axis_ticks :: "chart \<Rightarrow> int list option" where
  "x_axis_ticks c =
     (let cnt = c_width c / 80
      in case x_domain c of
           (Num a, Num b) \<Rightarrow>
             if cnt \<le> 0 then Some []
             else (case tick_interval_choice cnt (min a b) (max a b) of
                     None \<Rightarrow> Some []
                   | Some iv \<Rightarrow> map_option (\<lambda>ts. if b < a then rev ts else ts)
                                  (time_range iv (min a b) (max a b + 1)))
         | _ \<Rightarrow> Some [])"

text \<open>The intervals the scale's table produces: filters only over the units
  with a field whose loops are bounded, and the invariant the month filter's
  \<open>offset\<close> loop needs (it is entered on first days of months only).\<close>

definition iv_ok :: "time_interval \<Rightarrow> bool" where
  "iv_ok iv = (case iv of Filtered u s \<Rightarrow> u \<in> {USecond, UMinute, UHour, UDay, UMonth} | _ \<Rightarrow> True)"

fun iv_aligned :: "time_interval \<Rightarrow> int \<Rightarrow> bool" where
  "iv_aligned (Filtered UMonth s) t = (get_utc_date t = 1)"
| "iv_aligned iv t = True"

subsection \<open>Termination of the interval loops\<close>

lemma day_floor_eq: "unit_floor UDay t = day_of t * ms_per_day"
  by (simp add: set_utc_hours0_eq)

lemma month_floor_eq: "unit_floor UMonth t = (day_of t + 1 - get_utc_date t) * ms_per_day"
proof -
  have "day_of (set_utc_date t 1) = day_of t + 1 - get_utc_date t"
    using day_of_make_date [OF time_within_day_bounds [THEN conjunct1] time_within_day_bounds [THEN conjunct2], of "day_of t + 1 - get_utc_date t" t]
      make_date_decomp [of t]
    by (simp add: set_utc_date_eq make_date_def algebra_simps)
  then show ?thesis
    by (simp add: set_utc_hours0_eq)
qed

lemma filter_floor_term:
  fixes mu :: "int \<Rightarrow> nat"
  assumes dec: "\<And>t. \<not> every_test u s (unit_floor u t) \<Longrightarrow> mu (unit_floor u t - 1) < mu t"
  shows "\<exists>x. filter_floor u s t = Some (unit_floor u x)"
proof (induction "mu t" arbitrary: t rule: less_induct)
  case less
  show ?case
  proof (cases "every_test u s (unit_floor u t)")
    case True
    then have "filter_floor u s t = Some (unit_floor u t)"
      by (subst filter_floor.simps) (simp add: Let_def)
    then show ?thesis by blast
  next
    case False
    then have "filter_floor u s t = filter_floor u s (unit_floor u t - 1)"
      by (subst filter_floor.simps) (simp add: Let_def)
    moreover obtain x where "filter_floor u s (unit_floor u t - 1) = Some (unit_floor u x)"
      using less dec [OF False] by blast
    ultimately show ?thesis by metis
  qed
qed

lemma filter_next_term:
  fixes mu :: "int \<Rightarrow> nat"
  assumes dec: "\<And>t. P t \<Longrightarrow> \<not> every_test u s (unit_offset u t 1) \<Longrightarrow>
                  mu (unit_offset u t 1) < mu t \<and> P (unit_offset u t 1)"
    and "P t"
  shows "\<exists>r. filter_next u s t = Some r"
  using \<open>P t\<close>
proof (induction "mu t" arbitrary: t rule: less_induct)
  case less
  show ?case
  proof (cases "every_test u s (unit_offset u t 1)")
    case True
    then show ?thesis
      by (subst filter_next.simps) (simp add: Let_def)
  next
    case False
    then have "filter_next u s t = filter_next u s (unit_offset u t 1)"
      by (subst filter_next.simps) (simp add: Let_def)
    then show ?thesis
      using less dec [OF less.prems False] by metis
  qed
qed

lemma fixed_floor_dec:
  assumes w: "1 < w" and p: "1 < p" and fl: "unit_floor u t = t - t mod w"
    and te: "every_test u s (t - t mod w) \<longleftrightarrow> ((t div w) mod p) mod s = 0"
    and nt: "\<not> every_test u s (unit_floor u t)"
  shows "nat ((unit_floor u t - 1) div w mod p) < nat ((t div w) mod p)"
proof -
  have "(t div w) mod p \<noteq> 0"
    using te nt fl by auto
  moreover have "0 \<le> (t div w) mod p"
    using p by simp
  ultimately have nz: "0 < (t div w) mod p"
    by linarith
  have "(unit_floor u t - 1) div w = t div w - 1"
    using mult_pred_div [OF w, of "t div w"] fl w by (simp add: minus_mod_eq_mult_div)
  then have "(unit_floor u t - 1) div w mod p = (t div w) mod p - 1"
    using pred_mod_int [OF p] nz by simp
  then show ?thesis
    using nz by simp
qed

lemma fixed_next_dec:
  assumes w: "0 < w" and p: "1 < p"
    and te: "every_test u s (t + w) \<longleftrightarrow> (((t + w) div w) mod p) mod s = 0"
    and nt: "\<not> every_test u s (t + w)"
  shows "nat (p - 1 - (t + w) div w mod p) < nat (p - 1 - (t div w) mod p)"
proof -
  have q: "(t + w) div w = t div w + 1"
    using w by simp
  then have "(t div w + 1) mod p \<noteq> 0"
    using te nt by auto
  then have "(t div w + 1) mod p = (t div w) mod p + 1"
    using succ_mod_int [OF p] by blast
  moreover have "(t div w + 1) mod p < p"
    using p by simp
  ultimately show ?thesis
    unfolding q by simp
qed

lemma day_of_add_day: "day_of (t + ms_per_day) = day_of t + 1"
  by (simp add: day_of_def ms_per_day_def)

lemma every_test_fixed:
  "every_test USecond s t \<longleftrightarrow> ((t div 1000) mod 60) mod s = 0"
  "every_test UMinute s t \<longleftrightarrow> ((t div 60000) mod 60) mod s = 0"
  "every_test UHour s t \<longleftrightarrow> ((t div 3600000) mod 24) mod s = 0"
  by (simp_all add: every_test_def sec_from_time_def min_from_time_def hour_from_time_def)

lemma every_test_calendar:
  "every_test UDay s t \<longleftrightarrow> (get_utc_date t - 1) mod s = 0"
  "every_test UMonth s t \<longleftrightarrow> get_utc_month t mod s = 0"
  by (simp_all add: every_test_def)

lemma fixed_floor_ok:
  assumes "u \<in> {USecond, UMinute, UHour}"
  shows "\<exists>x. filter_floor u s t = Some (unit_floor u x)"
proof -
  have m: "(t - t mod w) div w = t div w" if "0 < w" for w t :: int
    using that by (simp add: minus_mod_eq_mult_div)
  have "nat ((unit_floor USecond t - 1) div 1000 mod 60) < nat ((t div 1000) mod 60)"
    if "\<not> every_test USecond s (unit_floor USecond t)" for t
    by (rule fixed_floor_dec [where s = s]) (insert that, simp_all add: ms_from_time_def every_test_fixed m)
  then have s: "\<exists>x. filter_floor USecond s t = Some (unit_floor USecond x)"
    by (rule filter_floor_term [where mu = "\<lambda>t. nat ((t div 1000) mod 60)"])
  have "nat ((unit_floor UMinute t - 1) div 60000 mod 60) < nat ((t div 60000) mod 60)"
    if "\<not> every_test UMinute s (unit_floor UMinute t)" for t
    by (rule fixed_floor_dec [where s = s]) (insert that, simp_all add: minute_floor_eq every_test_fixed m)
  then have mi: "\<exists>x. filter_floor UMinute s t = Some (unit_floor UMinute x)"
    by (rule filter_floor_term [where mu = "\<lambda>t. nat ((t div 60000) mod 60)"])
  have "nat ((unit_floor UHour t - 1) div 3600000 mod 24) < nat ((t div 3600000) mod 24)"
    if "\<not> every_test UHour s (unit_floor UHour t)" for t
    by (rule fixed_floor_dec [where s = s]) (insert that, simp_all add: hour_floor_eq every_test_fixed m)
  then have h: "\<exists>x. filter_floor UHour s t = Some (unit_floor UHour x)"
    by (rule filter_floor_term [where mu = "\<lambda>t. nat ((t div 3600000) mod 24)"])
  show ?thesis
    using assms s mi h by blast
qed

lemma fixed_next_term:
  assumes of: "\<And>t. unit_offset u t 1 = t + w" and te: "\<And>t. every_test u s t \<longleftrightarrow> ((t div w) mod p) mod s = 0"
    and w: "0 < w" and p: "1 < p"
  shows "\<exists>r. filter_next u s t = Some r"
proof -
  have "nat (p - 1 - (unit_offset u t 1) div w mod p) < nat (p - 1 - (t div w) mod p) \<and> True"
    if "\<not> every_test u s (unit_offset u t 1)" for t
    using fixed_next_dec [OF w p te] that of by simp
  then show ?thesis
    using filter_next_term [where mu = "\<lambda>t. nat (p - 1 - (t div w) mod p)" and P = "\<lambda>_. True", of u s t]
    by blast
qed

lemma fixed_next_ok:
  assumes "u \<in> {USecond, UMinute, UHour}"
  shows "\<exists>r. filter_next u s t = Some r"
proof -
  have "\<exists>r. filter_next USecond s t = Some r"
    by (rule fixed_next_term [where w = 1000 and p = 60]) (simp_all add: every_test_fixed)
  moreover have "\<exists>r. filter_next UMinute s t = Some r"
    by (rule fixed_next_term [where w = 60000 and p = 60]) (simp_all add: every_test_fixed)
  moreover have "\<exists>r. filter_next UHour s t = Some r"
    by (rule fixed_next_term [where w = 3600000 and p = 24]) (simp_all add: every_test_fixed)
  ultimately show ?thesis
    using assms by blast
qed

lemma day_floor_ok: "\<exists>x. filter_floor UDay s t = Some (unit_floor UDay x)"
proof -
  have "nat (get_utc_date (unit_floor UDay t - 1)) < nat (get_utc_date t)"
    if nt: "\<not> every_test UDay s (unit_floor UDay t)" for t
  proof -
    let ?d = "day_of t"
    have ne: "date_from_day ?d \<noteq> 1"
      using nt unfolding every_test_calendar get_utc_date_def day_floor_eq day_of_start by auto
    then have "date_from_day (?d - 1) = date_from_day ?d - 1"
      using date_pred by blast
    moreover have "2 \<le> date_from_day ?d"
      using date_from_day_bounds [of ?d] ne by simp
    ultimately show ?thesis
      unfolding get_utc_date_def day_floor_eq day_of_start_pred by simp
  qed
  then show ?thesis
    by (rule filter_floor_term [where mu = "\<lambda>t. nat (get_utc_date t)"])
qed

lemma day_next_ok: "\<exists>r. filter_next UDay s t = Some r"
proof -
  have "nat (31 - get_utc_date (unit_offset UDay t 1)) < nat (31 - get_utc_date t) \<and> True"
    if nt: "\<not> every_test UDay s (unit_offset UDay t 1)" for t
  proof -
    let ?d = "day_of t"
    have o: "unit_offset UDay t 1 = t + ms_per_day"
      by (simp add: set_utc_date_eq)
    have "date_from_day (?d + 1) \<noteq> 1"
      using nt unfolding o every_test_calendar get_utc_date_def day_of_add_day by auto
    then have "date_from_day (?d + 1) = date_from_day ?d + 1"
      using date_succ by blast
    moreover have "date_from_day (?d + 1) \<le> 31"
      using date_from_day_bounds by blast
    ultimately show ?thesis
      unfolding o get_utc_date_def day_of_add_day by simp
  qed
  then show ?thesis
    using filter_next_term [where mu = "\<lambda>t. nat (31 - get_utc_date t)" and P = "\<lambda>_. True", of UDay s t]
    by blast
qed

lemma month_floor_start:
  "get_utc_date (unit_floor UMonth t) = 1 \<and> get_utc_month (unit_floor UMonth t) = get_utc_month t"
  using month_start_decode [of "day_of t"]
  unfolding month_floor_eq get_utc_date_def get_utc_month_def day_of_start by simp

lemma month_floor_ok: "\<exists>x. filter_floor UMonth s t = Some (unit_floor UMonth x)"
proof -
  have "month_from_day (day_of (unit_floor UMonth t - 1)) < month_from_day (day_of t)"
    if nt: "\<not> every_test UMonth s (unit_floor UMonth t)" for t
  proof -
    let ?d = "day_of t"
    let ?ds = "?d + 1 - date_from_day ?d"
    have f: "unit_floor UMonth t = ?ds * ms_per_day"
      using month_floor_eq [of t] unfolding get_utc_date_def .
    have d0: "date_from_day ?ds = 1" "month_from_day ?ds = month_from_day ?d"
      using month_start_decode [of "day_of t"] by blast+
    have "get_utc_month t mod s \<noteq> 0"
      using nt month_floor_start [of t] unfolding every_test_calendar by metis
    then have pos: "0 < month_from_day ?d"
      unfolding get_utc_month_def by (rule contrapos_np) simp
    then have "month_from_day (?ds - 1) = month_from_day ?d - 1"
      using month_first_pred [of ?ds] d0 by simp
    then show ?thesis
      using pos unfolding f day_of_start_pred by simp
  qed
  then show ?thesis
    by (rule filter_floor_term [where mu = "\<lambda>t. month_from_day (day_of t)"])
qed

lemma month_next_ok:
  assumes "get_utc_date t = 1"
  shows "\<exists>r. filter_next UMonth s t = Some r"
proof -
  have "nat (11 - get_utc_month (unit_offset UMonth t 1)) < nat (11 - get_utc_month t) \<and>
        get_utc_date (unit_offset UMonth t 1) = 1"
    if p: "get_utc_date t = 1" and nt: "\<not> every_test UMonth s (unit_offset UMonth t 1)" for t
  proof -
    let ?y = "get_utc_full_year t" and ?m = "get_utc_month t"
    have o: "day_of (unit_offset UMonth t 1) = make_day ?y (?m + 1) 1"
      using p time_within_day_bounds [of t] by (simp add: set_utc_month_def day_of_make_date)
    have m: "0 \<le> ?m" "?m < 12"
      using month_from_day_bounds [of "day_of t"] by (simp_all add: get_utc_month_def)
    have nz: "get_utc_month (unit_offset UMonth t 1) \<noteq> 0"
      using nt unfolding every_test_calendar by auto
    show ?thesis
      using month_first_next [OF m, of ?y] nz m month_from_day_bounds [of "make_day ?y (?m + 1) 1"]
      unfolding get_utc_month_def get_utc_date_def o by auto
  qed
  then show ?thesis
    using filter_next_term [where mu = "\<lambda>t. nat (11 - get_utc_month t)" and P = "\<lambda>t. get_utc_date t = 1",
        of UMonth s t] assms
    by blast
qed

lemma iv_floor_ok:
  assumes "iv_ok iv"
  shows "\<exists>r. iv_floor iv t = Some r \<and> iv_aligned iv r"
proof (cases iv)
  case (Filtered u s)
  then have "u \<in> {USecond, UMinute, UHour} \<or> u = UDay \<or> u = UMonth"
    using assms by (auto simp: iv_ok_def)
  then show ?thesis
  proof (elim disjE)
    assume "u \<in> {USecond, UMinute, UHour}"
    then show ?thesis
      using Filtered fixed_floor_ok [of u s t] by auto
  next
    assume "u = UDay"
    then show ?thesis
      using Filtered day_floor_ok [of s t] by auto
  next
    assume "u = UMonth"
    moreover obtain x where "filter_floor UMonth s t = Some (unit_floor UMonth x)"
      using month_floor_ok by blast
    ultimately show ?thesis
      using Filtered month_floor_start [of x] by simp
  qed
qed simp_all

lemma iv_next_ok:
  assumes "iv_ok iv" "iv_aligned iv t"
  shows "\<exists>r. iv_next iv t = Some r"
proof (cases iv)
  case (Filtered u s)
  then have "u \<in> {USecond, UMinute, UHour} \<or> u = UDay \<or> u = UMonth"
    using assms by (auto simp: iv_ok_def)
  then show ?thesis
    using Filtered assms(2) fixed_next_ok [of u s t] day_next_ok [of s t] month_next_ok [of t s] by auto
qed simp_all

lemma range_loop_term:
  assumes "iv_ok iv"
  shows "iv_aligned iv t \<Longrightarrow> \<exists>ts. range_loop iv stop t = Some ts"
proof (induction "nat (\<lceil>stop\<rceil> - t)" arbitrary: t rule: less_induct)
  case less
  obtain a where a: "iv_next iv t = Some a"
    using iv_next_ok [OF assms less.prems] by blast
  obtain b where b: "iv_floor iv a = Some b" "iv_aligned iv b"
    using iv_floor_ok [OF assms] by blast
  show ?case
  proof (cases "t < b \<and> real_of_int b < stop")
    case True
    then have "b < \<lceil>stop\<rceil>"
      by (simp add: less_ceiling_iff)
    then have "nat (\<lceil>stop\<rceil> - b) < nat (\<lceil>stop\<rceil> - t)"
      using True by simp
    then obtain rest where "range_loop iv stop b = Some rest"
      using less b(2) by blast
    then show ?thesis
      using a b True by (subst range_loop.simps) simp
  next
    case False
    then show ?thesis
      using a b by (subst range_loop.simps) auto
  qed
qed

lemma time_range_term:
  assumes "iv_ok iv"
  shows "\<exists>ts. time_range iv start stop = Some ts"
proof -
  obtain a where a: "iv_floor iv (js_trunc (start - 1)) = Some a" "iv_aligned iv a"
    using iv_floor_ok [OF assms] by blast
  obtain n where n: "iv_next iv a = Some n"
    using iv_next_ok [OF assms a(2)] by blast
  obtain s where s: "iv_floor iv n = Some s" "iv_aligned iv s"
    using iv_floor_ok [OF assms] by blast
  have "iv_ceil iv start = Some s"
    using a n s by (simp add: iv_ceil_def)
  then show ?thesis
    using range_loop_term [OF assms s(2), of stop] by (simp add: time_range_def)
qed

lemma every_ok:
  assumes "every u k = Some iv" "u \<noteq> UWeek \<or> \<lfloor>k\<rfloor> = 1"
  shows "iv_ok iv"
  using assms by (cases u) (auto simp: every_def iv_ok_def Let_def split: if_splits)

lemma tick_interval_choice_ok:
  assumes "tick_interval_choice cnt t0 t1 = Some iv"
  shows "iv_ok iv"
proof -
  let ?durs = "map (\<lambda>(u, s, d). d) tick_intervals"
  let ?i = "bisect_right ?durs (\<bar>t1 - t0\<bar> / cnt) 0 (length ?durs)"
  have "sorted ?durs"
    by (simp add: tick_intervals_def)
  then have i: "?i \<le> length ?durs"
    using bisect_right_spec [of ?durs "length ?durs" 0] by simp
  have tbl: "\<forall>x\<in>set tick_intervals. fst x \<noteq> UWeek \<or> \<lfloor>real_of_int (fst (snd x))\<rfloor> = 1"
    by (simp add: tick_intervals_def)
  have len: "length tick_intervals = 18"
    by (simp add: tick_intervals_def)
  have ok_j: "iv_ok iv"
    if "every (fst (tick_intervals ! j)) (real_of_int (fst (snd (tick_intervals ! j)))) = Some iv" "j < 18" for j
    using tbl nth_mem [of j tick_intervals] that len every_ok [OF that(1)] by auto
  show ?thesis
  proof (cases "?i = length ?durs")
    case True
    then show ?thesis
      using assms every_ok [of UYear] unfolding tick_interval_choice_def Let_def by auto
  next
    case False
    then have "?i < 18" "?i - 1 < 18"
      using i len by simp_all
    then show ?thesis
      using assms every_ok [of UMillisecond] ok_j [of "?i - 1"] ok_j [of ?i] False
      unfolding tick_interval_choice_def Let_def by (auto split: if_splits)
  qed
qed

lemma range_loop_props:
  assumes "range_loop iv stop t = Some ts"
  shows "ts \<noteq> [] \<and> hd ts = t \<and> sorted_wrt (<) ts \<and>
         (\<forall>x\<in>set (tl ts). real_of_int x < stop \<and> (\<exists>y. iv_floor iv y = Some x))"
proof (rule range_loop.raw_induct [where P = "\<lambda>iv stop t ts. ts \<noteq> [] \<and> hd ts = t \<and> sorted_wrt (<) ts \<and>
         (\<forall>x\<in>set (tl ts). real_of_int x < stop \<and> (\<exists>y. iv_floor iv y = Some x))", OF _ assms], goal_cases)
  case (1 loop iv stop t ts)
  note IH = "1"(1) and eq = "1"(2)
  from eq obtain a b where a: "iv_next iv t = Some a" and b: "iv_floor iv a = Some b"
    by (auto split: Option.bind_splits)
  show ?case
  proof (cases "t < b \<and> real_of_int b < stop")
    case True
    then obtain rest where r: "loop iv stop b = Some rest" and ts: "ts = t # rest"
      using eq a b by (auto split: Option.bind_splits)
    have "rest \<noteq> [] \<and> hd rest = b \<and> sorted_wrt (<) rest \<and>
          (\<forall>x\<in>set (tl rest). real_of_int x < stop \<and> (\<exists>y. iv_floor iv y = Some x))"
      using IH [OF r] .
    moreover have "\<forall>x\<in>set rest. b \<le> x"
      using calculation by (cases rest) (auto intro: less_imp_le)
    ultimately show ?thesis
      using True b ts by (cases rest) auto
  next
    case False
    then show ?thesis
      using eq a b by (auto split: if_splits)
  qed
qed

lemma time_range_props:
  assumes "time_range iv start stop = Some ts"
  shows "sorted_wrt (<) ts \<and> (\<forall>x\<in>set ts. real_of_int x < stop \<and> (\<exists>y. iv_floor iv y = Some x))"
proof -
  obtain s where s: "iv_ceil iv start = Some s"
    using assms by (cases "iv_ceil iv start") (simp_all add: time_range_def)
  then obtain n where "iv_floor iv n = Some s"
    by (auto simp: iv_ceil_def split: Option.bind_splits)
  moreover have "ts = [] \<or> (real_of_int s < stop \<and> range_loop iv stop s = Some ts)"
    using assms s by (simp add: time_range_def split: if_splits)
  ultimately show ?thesis
    using range_loop_props [of iv stop s ts] by (cases ts) auto
qed

lemma week_floor_eq: "unit_floor UWeek t = (day_of t - week_day t) * ms_per_day"
proof -
  have "(week_day t + 7) mod 7 = week_day t"
    by (simp add: week_day_def)
  moreover have "day_of (set_utc_date t (get_utc_date t - week_day t)) = day_of t - week_day t"
    using day_of_make_date [OF time_within_day_bounds [THEN conjunct1] time_within_day_bounds [THEN conjunct2],
        of "day_of t - week_day t" t] make_date_decomp [of t]
    by (simp add: set_utc_date_eq make_date_def algebra_simps)
  ultimately show ?thesis
    by (simp add: set_utc_hours0_eq)
qed

lemma week_offset_eq: "unit_offset UWeek t 1 = t + 7 * ms_per_day"
  by (simp add: set_utc_date_eq)

lemma week_floor_sunday: "week_day (unit_floor UWeek t) = 0 \<and> time_within_day (unit_floor UWeek t) = 0"
proof -
  have "(day_of t - (day_of t + 4) mod 7 + 4) mod 7 = 0"
    by (simp add: mod_eq_0_iff_dvd minus_mod_eq_mult_div [symmetric] algebra_simps)
  then show ?thesis
    unfolding week_floor_eq by (simp add: week_day_def day_of_start time_within_day_def)
qed

lemma x_axis_ticks_shape:
  "x_axis_ticks c = Some [] \<or>
   (\<exists>a b iv us. x_domain c = (Num a, Num b) \<and> time_range iv (min a b) (max a b + 1) = Some us \<and>
                x_axis_ticks c = Some (if b < a then rev us else us))"
proof (cases "x_domain c")
  case (Pair d0 d1)
  show ?thesis
  proof (cases "\<exists>a b iv. d0 = Num a \<and> d1 = Num b \<and> \<not> c_width c / 80 \<le> 0 \<and>
                  tick_interval_choice (c_width c / 80) (min a b) (max a b) = Some iv")
    case True
    then obtain a b iv where ab: "d0 = Num a" "d1 = Num b" "\<not> c_width c / 80 \<le> 0"
      and iv: "tick_interval_choice (c_width c / 80) (min a b) (max a b) = Some iv"
      by blast
    obtain us where us: "time_range iv (min a b) (max a b + 1) = Some us"
      using time_range_term [OF tick_interval_choice_ok [OF iv]] by blast
    then have "x_axis_ticks c = Some (if b < a then rev us else us)"
      using Pair ab iv by (simp add: x_axis_ticks_def)
    then show ?thesis
      using Pair ab us by blast
  next
    case False
    then have "x_axis_ticks c = Some []"
      using Pair by (auto simp: x_axis_ticks_def Let_def split: jsnum.splits option.splits)
    then show ?thesis
      by blast
  qed
qed

text \<open>C31: the x axis's tick computation always returns: for every chart,
  the interval the scale picks has terminating \<open>floor\<close> and \<open>offset\<close> loops
  and the range loop advances, so \<open>x.ticks(width / 80)\<close> never runs forever.\<close>

theorem x_axis_ticks_total: "x_axis_ticks c \<noteq> None"
  using x_axis_ticks_shape [of c] by auto

text \<open>C32: \<open>interval.range(start, stop)\<close> lists strictly increasing
  times, all before \<open>stop\<close>, each of them a boundary of the interval (a value
  of its \<open>floor\<close>).\<close>

theorem time_range_sorted_bounded:
  assumes "time_range iv start stop = Some ts"
  shows "sorted_wrt (<) ts \<and> (\<forall>x\<in>set ts. real_of_int x < stop \<and> (\<exists>y. iv_floor iv y = Some x))"
  using time_range_props [OF assms] .

text \<open>C33: weekly x-axis ticks (\<open>d3.utcWeek\<close>, which is \<open>utcSunday\<close>) fall
  on Sundays at 00:00 UTC.\<close>

theorem week_ticks_on_sunday:
  assumes "time_range (Plain UWeek) start stop = Some ts" "x \<in> set ts"
  shows "week_day x = 0 \<and> time_within_day x = 0"
  using time_range_props [OF assms(1)] assms(2) week_floor_sunday by auto

lemma ms_range_example: "time_range (MsEvery 1000) 0 3500 = Some [0, 1000, 2000, 3000]"
proof -
  have "iv_ceil (MsEvery 1000) 0 = Some 0"
    by (simp add: iv_ceil_def js_trunc_def ceiling_minus)
  moreover have "range_loop (MsEvery 1000) 3500 3000 = Some [3000]"
    by (subst range_loop.simps) simp
  moreover have "range_loop (MsEvery 1000) 3500 2000 = Some [2000, 3000]"
    using calculation(2) by (subst range_loop.simps) simp
  moreover have "range_loop (MsEvery 1000) 3500 1000 = Some [1000, 2000, 3000]"
    using calculation(3) by (subst range_loop.simps) simp
  moreover have "range_loop (MsEvery 1000) 3500 0 = Some [0, 1000, 2000, 3000]"
    using calculation(4) by (subst range_loop.simps) simp
  ultimately show ?thesis
    by (simp add: time_range_def)
qed

lemma week_range_example: "time_range (Plain UWeek) 0 604800000 = Some [259200000]"
proof -
  have "iv_ceil (Plain UWeek) 0 = Some 259200000"
    by (simp del: unit_floor.simps unit_offset.simps
        add: iv_ceil_def js_trunc_def ceiling_minus week_floor_eq week_offset_eq day_of_def week_day_def ms_per_day_def)
  moreover have "range_loop (Plain UWeek) 604800000 259200000 = Some [259200000]"
    by (subst range_loop.simps)
       (simp del: unit_floor.simps unit_offset.simps
        add: week_floor_eq week_offset_eq day_of_def week_day_def ms_per_day_def)
  ultimately show ?thesis
    by (simp add: time_range_def)
qed

theorem time_range_sorted_bounded_witness:
  "time_range (MsEvery 1000) 0 3500 = Some [0, 1000, 2000, 3000] \<and> sorted_wrt (<) [0, 1000, 2000, 3000::int] \<and>
   (\<exists>y. iv_floor (MsEvery 1000) y = Some 3000)"
  using time_range_sorted_bounded [OF ms_range_example] ms_range_example by simp

theorem week_ticks_on_sunday_witness:
  "time_range (Plain UWeek) 0 604800000 = Some [259200000] \<and> week_day 259200000 = 0 \<and>
   time_within_day 259200000 = 0"
  using week_ticks_on_sunday [OF week_range_example, of 259200000] week_range_example by simp

end
