(* ===== verification/AxisDom.thy ===== *)
theory AxisDom
  imports TimeTicks
begin

text \<open>
  The DOM the x axis leaves in its group, \<open>src/main.js\<close> lines 65--73 and
  108--115: \<open>d3.axisBottom(x).ticks(width / 80).tickSizeOuter(0)\<close> called on
  the group, then \<open>g.select(".domain").remove()\<close>.  d3-axis draws a domain
  path and one tick per tick value (a line and a text label), translated to
  the scale's position plus half a pixel; the labels come from the time
  scale's multi-scale format (d3-scale 2.2 \<open>tickFormat\<close>), which picks one
  of eight \<open>d3.utcFormat\<close> specifiers by the coarsest interval the time is
  not a boundary of.  d3-time-format's formatter is modelled as it walks its
  specifier, with the directives of the default (en-US) locale.
\<close>

subsection \<open>d3-time-format\<close>

definition digit_char :: "nat \<Rightarrow> char" where
  "digit_char d = ''0123456789'' ! d"

function dec_string :: "nat \<Rightarrow> string" where
  "dec_string n = (if n < 10 then [digit_char n] else dec_string (n div 10) @ [digit_char (n mod 10)])"
  by pat_completeness auto
termination
  by (relation "measure id") auto

declare dec_string.simps [simp del]

text \<open>JavaScript's \<open>%\<close> (truncating remainder) for a positive divisor.\<close>

definition js_rem :: "int \<Rightarrow> int \<Rightarrow> int" where
  "js_rem a b = (if a < 0 then - ((- a) mod b) else a mod b)"

text \<open>\<open>pad(value, fill, width)\<close>.\<close>

definition pad :: "int \<Rightarrow> string \<Rightarrow> nat \<Rightarrow> string" where
  "pad value fill width =
     (let sign = (if value < 0 then ''-'' else '''');
          s = dec_string (nat \<bar>value\<bar>); len = length s
      in sign @ (if len < width then concat (replicate (width - len) fill) @ s else s))"

definition locale_periods :: "string list" where
  "locale_periods = [''AM'', ''PM'']"

definition locale_short_days :: "string list" where
  "locale_short_days = [''Sun'', ''Mon'', ''Tue'', ''Wed'', ''Thu'', ''Fri'', ''Sat'']"

definition locale_days :: "string list" where
  "locale_days = [''Sunday'', ''Monday'', ''Tuesday'', ''Wednesday'', ''Thursday'', ''Friday'', ''Saturday'']"

definition locale_short_months :: "string list" where
  "locale_short_months =
     [''Jan'', ''Feb'', ''Mar'', ''Apr'', ''May'', ''Jun'', ''Jul'', ''Aug'', ''Sep'', ''Oct'', ''Nov'', ''Dec'']"

definition locale_months :: "string list" where
  "locale_months =
     [''January'', ''February'', ''March'', ''April'', ''May'', ''June'', ''July'', ''August'',
      ''September'', ''October'', ''November'', ''December'']"

text \<open>The \<open>utcFormats\<close> table, for its directives with a fixed-width or named
  output; \<open>None\<close> for a character that is not modelled as a directive.\<close>

definition utc_directive :: "char \<Rightarrow> (int \<Rightarrow> string \<Rightarrow> string) option" where
  "utc_directive c =
     (if c = CHR ''a'' then Some (\<lambda>t p. locale_short_days ! nat (week_day t))
      else if c = CHR ''A'' then Some (\<lambda>t p. locale_days ! nat (week_day t))
      else if c = CHR ''b'' then Some (\<lambda>t p. locale_short_months ! nat (get_utc_month t))
      else if c = CHR ''B'' then Some (\<lambda>t p. locale_months ! nat (get_utc_month t))
      else if c = CHR ''d'' then Some (\<lambda>t p. pad (get_utc_date t) p 2)
      else if c = CHR ''e'' then Some (\<lambda>t p. pad (get_utc_date t) p 2)
      else if c = CHR ''H'' then Some (\<lambda>t p. pad (hour_from_time t) p 2)
      else if c = CHR ''I'' then
        Some (\<lambda>t p. pad (if hour_from_time t mod 12 = 0 then 12 else hour_from_time t mod 12) p 2)
      else if c = CHR ''L'' then Some (\<lambda>t p. pad (ms_from_time t) p 3)
      else if c = CHR ''m'' then Some (\<lambda>t p. pad (get_utc_month t + 1) p 2)
      else if c = CHR ''M'' then Some (\<lambda>t p. pad (min_from_time t) p 2)
      else if c = CHR ''p'' then Some (\<lambda>t p. locale_periods ! (if 12 \<le> hour_from_time t then 1 else 0))
      else if c = CHR ''S'' then Some (\<lambda>t p. pad (sec_from_time t) p 2)
      else if c = CHR ''y'' then Some (\<lambda>t p. pad (js_rem (get_utc_full_year t) 100) p 2)
      else if c = CHR ''Y'' then Some (\<lambda>t p. pad (js_rem (get_utc_full_year t) 10000) p 4)
      else if c = CHR ''%'' then Some (\<lambda>t p. ''%'')
      else None)"

text \<open>\<open>pads\<close>: the padding modifiers after \<open>%\<close>.\<close>

definition pad_modifier :: "char \<Rightarrow> string option" where
  "pad_modifier c =
     (if c = CHR ''-'' then Some '''' else if c = CHR ''_'' then Some '' ''
      else if c = CHR ''0'' then Some ''0'' else None)"

definition apply_directive :: "char \<Rightarrow> string \<Rightarrow> int \<Rightarrow> string" where
  "apply_directive c p t = (case utc_directive c of Some f \<Rightarrow> f t p | None \<Rightarrow> [c])"

text \<open>\<open>newFormat(specifier, utcFormats)(date)\<close>: the text between directives is
  copied, a \<open>%\<close> takes an optional padding modifier and a directive
  character (default padding \<open>" "\<close> for \<open>e\<close>, \<open>"0"\<close> otherwise), and a
  \<open>%\<close> cut off by the end of the specifier produces nothing.\<close>

fun utc_format :: "string \<Rightarrow> int \<Rightarrow> string" where
  "utc_format [] t = []"
| "utc_format (c # cs) t =
     (if c \<noteq> CHR ''%'' then c # utc_format cs t
      else (case cs of
              [] \<Rightarrow> []
            | d # ds \<Rightarrow>
                (case pad_modifier d of
                   Some p \<Rightarrow> (case ds of [] \<Rightarrow> [] | e # es \<Rightarrow> apply_directive e p t @ utc_format es t)
                 | None \<Rightarrow> apply_directive d (if d = CHR ''e'' then '' '' else ''0'') t @ utc_format ds t)))"

subsection \<open>The time scale's tick format\<close>

definition time_tick_format :: "int \<Rightarrow> string" where
  "time_tick_format t =
     utc_format
       (if unit_floor USecond t < t then ''.%L''
        else if unit_floor UMinute t < t then '':%S''
        else if unit_floor UHour t < t then ''%I:%M''
        else if unit_floor UDay t < t then ''%I %p''
        else if unit_floor UMonth t < t then (if unit_floor UWeek t < t then ''%a %d'' else ''%b %d'')
        else if unit_floor UYear t < t then ''%B''
        else ''%Y'') t"

subsection \<open>The axis group\<close>

text \<open>d3-axis' orientations; \<open>k\<close> is -1 for \<open>top\<close> and \<open>left\<close>, 1 otherwise.\<close>

datatype orient = Top | Right | Bottom | Left

definition orient_k :: "orient \<Rightarrow> real" where
  "orient_k ori = (if ori = Top \<or> ori = Left then - 1 else 1)"

text \<open>One tick as d3-axis leaves it: the datum, the coordinate of its
  \<open>translate\<close> (the scale's position plus 0.5), its line's length
  (\<open>x2\<close> or \<open>y2\<close>: \<open>k * tickSizeInner\<close>, 6 by default), its text's offset
  (\<open>k * spacing\<close>, 6 + 3) and its label.\<close>

record ('a, 'b) tick_node =
  tick_datum :: 'a
  tick_pos :: jsnum
  tick_size :: real
  tick_text_at :: real
  tick_text :: 'b

text \<open>The group: the \<open>.domain\<close> path (its two ends, \<open>range[0] + 0.5\<close> and
  \<open>range[1] + 0.5\<close>, and \<open>k * tickSizeOuter\<close>), if present, and the ticks
  in document order.\<close>

record ('a, 'b) axis_group =
  domain_path :: "(real \<times> real \<times> real) option"
  tick_nodes :: "('a, 'b) tick_node list"

text \<open>\<open>axis(context)\<close> on an empty group with the given tick values and
  format (d3-axis 1.0).\<close>

definition axis_render :: "orient \<Rightarrow> ('a \<Rightarrow> jsnum) \<Rightarrow> real \<times> real \<Rightarrow> real \<Rightarrow> ('a \<Rightarrow> 'b) \<Rightarrow> 'a list \<Rightarrow>
                           ('a, 'b) axis_group" where
  "axis_render ori pos rg outer fmt values =
     \<lparr>domain_path = Some (fst rg + 1 / 2, snd rg + 1 / 2, orient_k ori * outer),
      tick_nodes = map (\<lambda>d. \<lparr>tick_datum = d, tick_pos = js_add (pos d) (Num (1 / 2)),
                              tick_size = orient_k ori * 6, tick_text_at = orient_k ori * 9,
                              tick_text = fmt d\<rparr>) values\<rparr>"

text \<open>\<open>g.select(".domain").remove()\<close> and \<open>g.select(".tick").remove()\<close>: the
  path comes first in the group, and the first \<open>.tick\<close> in document order
  is the first tick value's.\<close>

definition remove_domain :: "('a, 'b) axis_group \<Rightarrow> ('a, 'b) axis_group" where
  "remove_domain g = g\<lparr>domain_path := None\<rparr>"

definition remove_first_tick :: "('a, 'b) axis_group \<Rightarrow> ('a, 'b) axis_group" where
  "remove_first_tick g = g\<lparr>tick_nodes := drop 1 (tick_nodes g)\<rparr>"

definition x_axis_group :: "chart \<Rightarrow> (int, string) axis_group option" where
  "x_axis_group c =
     map_option (\<lambda>ts. remove_domain
                        (axis_render Bottom (\<lambda>d. x_scale c (Num (real_of_int d))) (0, c_width c) 0
                           time_tick_format ts))
       (x_axis_ticks c)"

subsection \<open>Labels of ticks at midnight\<close>

lemma midnight_floors:
  assumes "time_within_day t = 0"
  shows "unit_floor USecond t = t" "unit_floor UMinute t = t" "unit_floor UHour t = t"
    "unit_floor UDay t = t"
proof -
  have d: "86400000 dvd t"
    using assms by (simp add: time_within_day_def ms_per_day_def mod_eq_0_iff_dvd)
  have "(1000::int) dvd t" "(60000::int) dvd t" "(3600000::int) dvd t"
    by (rule dvd_trans [OF _ d], simp)+
  then have "t mod 1000 = 0" "t mod 60000 = 0" "t mod 3600000 = 0"
    by (simp_all add: mod_eq_0_iff_dvd)
  moreover have "day_of t * ms_per_day = t"
    using make_date_decomp [of t] assms by (simp add: make_date_def)
  ultimately show "unit_floor USecond t = t" "unit_floor UMinute t = t" "unit_floor UHour t = t"
    "unit_floor UDay t = t"
    by (simp_all add: ms_from_time_def minute_floor_eq hour_floor_eq set_utc_hours0_eq)
qed

lemma midnight_eq:
  assumes "time_within_day t = 0"
  shows "t = day_of t * ms_per_day"
  using make_date_decomp [of t] assms by (simp add: make_date_def)

lemma month_floor_less:
  assumes "time_within_day t = 0"
  shows "unit_floor UMonth t < t \<longleftrightarrow> get_utc_date t \<noteq> 1"
proof -
  have "1 \<le> get_utc_date t"
    using date_from_day_bounds by (simp add: get_utc_date_def)
  moreover have "(day_of t + 1 - get_utc_date t) * ms_per_day < day_of t * ms_per_day \<longleftrightarrow>
                 1 < get_utc_date t"
    by (simp add: ms_per_day_def)
  ultimately show ?thesis
    using midnight_eq [OF assms] month_floor_eq [of t] by auto
qed

lemma week_floor_less:
  assumes "time_within_day t = 0"
  shows "unit_floor UWeek t < t \<longleftrightarrow> week_day t \<noteq> 0"
proof -
  have "0 \<le> week_day t"
    by (simp add: week_day_def)
  moreover have "(day_of t - week_day t) * ms_per_day < day_of t * ms_per_day \<longleftrightarrow> 0 < week_day t"
    by (simp add: ms_per_day_def)
  ultimately show ?thesis
    using midnight_eq [OF assms] week_floor_eq [of t] by auto
qed

lemma year_floor_less:
  assumes "time_within_day t = 0" "get_utc_date t = 1"
  shows "unit_floor UYear t < t \<longleftrightarrow> get_utc_month t \<noteq> 0"
proof -
  let ?y = "get_utc_full_year t" and ?m = "month_from_day (day_of t)"
  have m: "?m < 12"
    using month_from_day_bounds by blast
  have "day_of t = make_day ?y (int ?m) 1"
    using make_day_of_decode [of "day_of t"] assms(2)
    by (simp add: get_utc_full_year_def year_from_time_def get_utc_date_def)
  then have t: "day_of t = day_from_year ?y + month_starts (in_leap ?y) ! ?m"
    using m by (simp add: make_day_in_year)
  have "day_of (set_utc_month t 0 1) = day_from_year ?y"
    using day_of_make_date [OF time_within_day_bounds [THEN conjunct1] time_within_day_bounds [THEN conjunct2]]
    by (simp add: set_utc_month_def make_day_in_year month_starts_def)
  then have y: "unit_floor UYear t = day_from_year ?y * ms_per_day"
    by (simp add: set_utc_hours0_eq)
  have "0 < month_starts (in_leap ?y) ! ?m \<longleftrightarrow> get_utc_month t \<noteq> 0"
    using month_starts_pos [OF in_leap_cases m] by (cases "?m = 0") (simp_all add: month_starts_def get_utc_month_def)
  moreover have "t = (day_from_year ?y + month_starts (in_leap ?y) ! ?m) * ms_per_day"
    using midnight_eq [OF assms(1)] t by metis
  ultimately have "\<exists>a b. unit_floor UYear t = a * ms_per_day \<and> t = (a + b) * ms_per_day \<and>
                      (0 < b \<longleftrightarrow> get_utc_month t \<noteq> 0)"
    using y by blast
  then show ?thesis
    by (auto simp: ms_per_day_def)
qed

lemma x_axis_group_some: "x_axis_group c \<noteq> None"
  using x_axis_ticks_shape [of c] by (auto simp: x_axis_group_def)

text \<open>C34: at midnight UTC the multi-scale format labels a tick with its
  weekday and date (\<open>"%a %d"\<close>) inside a week, with its month and date
  (\<open>"%b %d"\<close>) on a Sunday, with the month's name (\<open>"%B"\<close>) on the first
  of a month and with the year (\<open>"%Y"\<close>) on the first of January.\<close>

theorem time_tick_format_midnight:
  assumes "time_within_day t = 0"
  shows "time_tick_format t =
           utc_format (if get_utc_date t \<noteq> 1 then (if week_day t \<noteq> 0 then ''%a %d'' else ''%b %d'')
                       else if get_utc_month t \<noteq> 0 then ''%B'' else ''%Y'') t"
proof (cases "get_utc_date t = 1")
  case True
  then show ?thesis
    using month_floor_less [OF assms] year_floor_less [OF assms True]
    unfolding time_tick_format_def midnight_floors [OF assms] by (simp del: unit_floor.simps)
next
  case False
  then show ?thesis
    using month_floor_less [OF assms] week_floor_less [OF assms]
    unfolding time_tick_format_def midnight_floors [OF assms] by (simp del: unit_floor.simps)
qed

text \<open>C35: when the x domain has two distinct ends and the chart a positive
  width, line 73 leaves the x axis without its domain path and with its tick
  labels laid out from left to right: the ticks' abscissas are strictly
  increasing in document order, for an increasing and for a reversed domain.\<close>

theorem x_axis_layout:
  assumes "x_axis_group c = Some g" "x_domain c = (Num a, Num b)" "a \<noteq> b" "0 < c_width c"
  shows "domain_path g = None \<and> sorted_wrt (\<lambda>u v. js_less (tick_pos u) (tick_pos v)) (tick_nodes g)"
proof -
  obtain ts where ts: "x_axis_ticks c = Some ts"
    and g: "g = remove_domain (axis_render Bottom (\<lambda>d. x_scale c (Num (real_of_int d))) (0, c_width c) 0
                                time_tick_format ts)"
    using assms(1) by (auto simp: x_axis_group_def)
  define P where "P d = (real_of_int d - a) / (b - a) * c_width c + 1 / 2" for d :: int
  have pos: "js_add (x_scale c (Num (real_of_int d))) (Num (1 / 2)) = Num (P d)" for d
    using assms(2,3) by (simp add: x_scale_def scale_linear_Num P_def)
  have nodes: "sorted_wrt (\<lambda>u v. js_less (tick_pos u) (tick_pos v)) (tick_nodes g) \<longleftrightarrow>
               sorted_wrt (\<lambda>d e. P d < P e) ts"
    by (simp add: g remove_domain_def axis_render_def sorted_wrt_map pos)
  consider "ts = []"
    | iv us where "time_range iv (min a b) (max a b + 1) = Some us" "ts = (if b < a then rev us else us)"
    using x_axis_ticks_shape [of c] ts assms(2) by auto
  then have "sorted_wrt (\<lambda>d e. P d < P e) ts"
  proof cases
    case 1
    then show ?thesis by simp
  next
    case 2
    then have s: "sorted_wrt (<) us"
      using time_range_props by blast
    show ?thesis
    proof (cases "b < a")
      case True
      have "P e < P d" if "d < e" for d e
        using that True assms(4) by (simp add: P_def divide_strict_right_mono_neg)
      then show ?thesis
        using s 2 True by (simp add: sorted_wrt_rev) (erule sorted_wrt_mono_rel [rotated], blast)
    next
      case False
      then have "a < b"
        using assms(3) by simp
      then have "P d < P e" if "d < e" for d e
        using that assms(4) by (simp add: P_def divide_strict_right_mono)
      then show ?thesis
        using s 2 False by simp (erule sorted_wrt_mono_rel [rotated], blast)
    qed
  qed
  then show ?thesis
    using nodes by (simp add: g remove_domain_def)
qed

theorem time_tick_format_midnight_witness:
  "time_tick_format 0 = ''1970''"
proof -
  have yf: "year_from_day 0 = 1970"
    by (simp add: year_from_day_def year_estimate_def year_search.simps day_from_year_def)
  have d: "get_utc_date 0 = 1" "get_utc_month 0 = 0" "time_within_day 0 = 0"
    by (simp_all add: yf get_utc_date_def get_utc_month_def date_from_day_def month_from_day_def
        day_within_year_def day_of_def
        day_from_year_def month_from_dwy_def time_within_day_def month_starts_def)
  have "utc_format ''%Y'' 0 = ''1970''"
    by (simp add: apply_directive_def utc_directive_def pad_modifier_def pad_def js_rem_def
        get_utc_full_year_def year_from_time_def yf
        day_of_def dec_string.simps digit_char_def)
  then show ?thesis
    using time_tick_format_midnight [of 0] d by simp
qed

theorem x_axis_layout_witness:
  "domain_path (the (x_axis_group (projr (setup_chart 600 example_series)))) = None \<and>
   sorted_wrt (\<lambda>u v. js_less (tick_pos u) (tick_pos v))
     (tick_nodes (the (x_axis_group (projr (setup_chart 600 example_series)))))"
proof -
  let ?c = "projr (setup_chart 600 example_series)"
  have "x_domain ?c = (Num 0, Num 1000)" "0 < c_width ?c"
    by (simp_all add: setup_chart_def example_series_def chart_width_def margin_def)
  moreover have "x_axis_group ?c = Some (the (x_axis_group ?c))"
    using x_axis_group_some [of ?c] by simp
  ultimately show ?thesis
    using x_axis_layout [of ?c "the (x_axis_group ?c)" 0 1000] by simp
qed

end
