(* ===== verification/YAxisDom.thy ===== *)
theory YAxisDom
  imports AxisDom
begin

text \<open>
  The DOM the y axis leaves in its group, \<open>src/main.js\<close> lines 75--84 and
  116--119: \<open>d3.axisLeft(y).ticks(4).tickSizeOuter(0)\<close>, then
  \<open>g.select(".domain").remove()\<close> and \<open>g.select(".tick").remove()\<close>.  The
  labels come from the linear scale's \<open>tickFormat(4)\<close> (d3-scale 2.2): the
  specifier \<open>",f"\<close> with the precision \<open>precisionFixed(tickStep(0, max, 4))\<close>,
  that is d3-format's fixed-point notation (\<open>Number.prototype.toFixed\<close>)
  with the integer part grouped by thousands.  \<open>toFixed\<close> of a number of
  \<open>10^21\<close> or more falls back to \<open>ToString\<close>'s exponential notation, which is
  not modelled: the label is then \<open>None\<close>.
\<close>

subsection \<open>d3-format's fixed-point format\<close>

text \<open>d3-format's \<open>exponent(x)\<close> (from \<open>toExponential\<close>) and
  \<open>precisionFixed(step)\<close>.\<close>

definition exponent10 :: "real \<Rightarrow> int" where
  "exponent10 x = (if x = 0 then 0 else \<lfloor>log 10 \<bar>x\<bar>\<rfloor>)"

definition precision_fixed :: "real \<Rightarrow> nat" where
  "precision_fixed st = nat (max 0 (- exponent10 st))"

text \<open>\<open>Number.prototype.toFixed(f)\<close> on a non-negative number: the integer
  \<open>n\<close> nearest to \<open>x * 10^f\<close> (the larger one on a tie), its digits padded
  with zeros to at least \<open>f + 1\<close>, and a point before the last \<open>f\<close>.\<close>

definition to_fixed :: "nat \<Rightarrow> real \<Rightarrow> string option" where
  "to_fixed f x =
     (if 10 ^ 21 \<le> x then None
      else
        (let m = dec_string (nat \<lfloor>x * 10 ^ f + 1 / 2\<rfloor>)
         in Some (if f = 0 then m
                  else (let m' = (if length m \<le> f then replicate (f + 1 - length m) CHR ''0'' @ m else m)
                        in take (length m' - f) m' @ ''.'' @ drop (length m' - f) m'))))"

definition is_digit :: "char \<Rightarrow> bool" where
  "is_digit c = (c \<in> set ''0123456789'')"

text \<open>\<open>formatGroup([3], ",")\<close> with an unbounded width: groups of three
  digits taken from the right, joined by commas.\<close>

function group_chunks :: "string \<Rightarrow> string list" where
  "group_chunks s =
     (if length s \<le> 3 then [s] else group_chunks (take (length s - 3) s) @ [drop (length s - 3) s])"
  by pat_completeness auto
termination
  by (relation "measure length") auto

declare group_chunks.simps [simp del]

fun join_with :: "string \<Rightarrow> string list \<Rightarrow> string" where
  "join_with sep [] = []"
| "join_with sep [x] = x"
| "join_with sep (x # y # zs) = x @ sep @ join_with sep (y # zs)"

definition group_thousands :: "string \<Rightarrow> string" where
  "group_thousands s = join_with '','' (group_chunks s)"

text \<open>\<open>d3.format(",." + p + "f")(value)\<close>: \<open>toFixed\<close> of the absolute value, a
  minus sign unless the rounded value is zero, the digits before the first
  non-digit grouped, the rest (the point and the decimals, or \<open>NaN\<close>) kept.\<close>

definition format_fixed_comma :: "nat \<Rightarrow> jsnum \<Rightarrow> string option" where
  "format_fixed_comma p v =
     (case v of
        NaN \<Rightarrow> Some ''NaN''
      | Num x \<Rightarrow>
          map_option
            (\<lambda>s. (if x < 0 \<and> list_ex (\<lambda>c. c \<in> set ''123456789'') s then ''-'' else '''') @
                 group_thousands (takeWhile is_digit s) @ dropWhile is_digit s)
            (to_fixed p \<bar>x\<bar>))"

text \<open>The linear scale's \<open>tickFormat(4)\<close>: a domain end that is not a
  number leaves the precision unset, and d3-format's default is 6; a set
  precision is clamped to [0, 20].\<close>

definition y_tick_format :: "chart \<Rightarrow> jsnum \<Rightarrow> string option" where
  "y_tick_format c =
     (case y_domain c of
        (Num a, Num b) \<Rightarrow> format_fixed_comma (min 20 (precision_fixed (tick_step a b 4)))
      | _ \<Rightarrow> format_fixed_comma 6)"

subsection \<open>The y axis group\<close>

definition y_axis_group :: "chart \<Rightarrow> (jsnum, string option) axis_group" where
  "y_axis_group c =
     remove_first_tick
       (remove_domain (axis_render Left (y_scale c) (0, - y_range_max) 0 (y_tick_format c) (y_axis_ticks c)))"

subsection \<open>Reading a label back\<close>

text \<open>The value a reader takes from a label: the commas dropped, the digits
  before the point as an integer and those after it as a fraction.\<close>

definition digit_val :: "char \<Rightarrow> nat" where
  "digit_val c = of_char c - 48"

definition digits_value :: "string \<Rightarrow> nat" where
  "digits_value s = foldl (\<lambda>n c. 10 * n + digit_val c) 0 s"

definition read_fixed :: "string \<Rightarrow> real" where
  "read_fixed s =
     (let s' = filter (\<lambda>c. c \<noteq> CHR '','') s;
          ip = takeWhile (\<lambda>c. c \<noteq> CHR ''.'') s'; fp = drop 1 (dropWhile (\<lambda>c. c \<noteq> CHR ''.'') s')
      in real (digits_value ip) + real (digits_value fp) / 10 ^ length fp)"

subsection \<open>Lemmas on labels\<close>

lemma foldl_digits:
  "foldl (\<lambda>n c. 10 * n + digit_val c) m s = m * 10 ^ length s + foldl (\<lambda>n c. 10 * n + digit_val c) 0 s"
proof (induction s arbitrary: m rule: rev_induct)
  case (snoc c s)
  show ?case
    using snoc [of m] snoc [of 0] by (simp add: algebra_simps)
qed simp

lemma digits_value_append:
  "digits_value (a @ b) = digits_value a * 10 ^ length b + digits_value b"
  unfolding digits_value_def using foldl_digits [of "foldl (\<lambda>n c. 10 * n + digit_val c) 0 a" b]
  by (simp only: foldl_append)

lemma less_10_cases:
  "(d::nat) < 10 \<Longrightarrow> d = 0 \<or> d = 1 \<or> d = 2 \<or> d = 3 \<or> d = 4 \<or> d = 5 \<or> d = 6 \<or> d = 7 \<or> d = 8 \<or> d = 9"
  by (simp add: numeral_eq_Suc less_Suc_eq)

lemma digit_char_props:
  assumes "d < 10"
  shows "digit_val (digit_char d) = d \<and> is_digit (digit_char d)"
  using less_10_cases [OF assms] unfolding digit_char_def digit_val_def is_digit_def
  by (elim disjE; simp)

lemma digits_value_dec_string: "digits_value (dec_string n) = n"
proof (induction n rule: dec_string.induct)
  case (1 n)
  show ?case
  proof (cases "n < 10")
    case True
    then show ?thesis
      by (subst dec_string.simps) (simp add: digits_value_def digit_char_props)
  next
    case False
    then have "dec_string n = dec_string (n div 10) @ [digit_char (n mod 10)]"
      by (subst dec_string.simps) simp
    then show ?thesis
      using "1" False by (simp add: digits_value_append digits_value_def digit_char_props)
  qed
qed

lemma dec_string_digits: "c \<in> set (dec_string n) \<Longrightarrow> is_digit c"
proof (induction n rule: dec_string.induct)
  case (1 n)
  have d: "is_digit (digit_char d)" if "d < 10" for d
    using digit_char_props [OF that] by blast
  show ?case
    using "1" d by (subst (asm) dec_string.simps) (auto split: if_splits)
qed

lemma digits_value_zeros: "digits_value (replicate k CHR ''0'' @ m) = digits_value m"
proof -
  have "digits_value (replicate k CHR ''0'') = 0"
    by (induction k) (simp_all add: digits_value_def digit_val_def)
  then show ?thesis
    by (simp add: digits_value_append)
qed

lemma concat_group_chunks: "concat (group_chunks s) = s"
  by (induction s rule: group_chunks.induct) (subst group_chunks.simps, simp)

lemma filter_join_with:
  "filter P sep = [] \<Longrightarrow> filter P (join_with sep xs) = concat (map (filter P) xs)"
  by (induction sep xs rule: join_with.induct) simp_all

lemma filter_group_thousands:
  assumes "CHR '','' \<notin> set s"
  shows "filter (\<lambda>c. c \<noteq> CHR '','') (group_thousands s) = s"
proof -
  let ?P = "\<lambda>c. c \<noteq> CHR '',''"
  have "concat (map (filter ?P) xs) = filter ?P (concat xs)" for xs :: "string list"
    by (induction xs) simp_all
  then have "filter ?P (group_thousands s) = filter ?P (concat (group_chunks s))"
    by (simp add: group_thousands_def filter_join_with)
  also have "\<dots> = s"
    using assms by (simp add: concat_group_chunks filter_id_conv) blast
  finally show ?thesis .
qed

lemma digits_value_Nil: "digits_value [] = 0"
  by (simp add: digits_value_def)

lemma y_axis_group_nodes:
  "domain_path (y_axis_group c) = None \<and> map tick_datum (tick_nodes (y_axis_group c)) = y_axis_labels c \<and>
   list_all (\<lambda>n. tick_text n = y_tick_format c (tick_datum n)) (tick_nodes (y_axis_group c))"
  by (simp add: y_axis_group_def remove_first_tick_def remove_domain_def axis_render_def y_axis_labels_def
      drop_map list_all_iff comp_def)

lemma is_digit_not_sep: "is_digit c \<Longrightarrow> c \<noteq> CHR '','' \<and> c \<noteq> CHR ''.''"
  by (auto simp: is_digit_def)

lemma to_fixed_exact:
  assumes "x < 10 ^ 21" "x * 10 ^ p = real n"
  shows "to_fixed p x =
           Some (if p = 0 then dec_string n
                 else (let m = dec_string n;
                           m' = (if length m \<le> p then replicate (p + 1 - length m) CHR ''0'' @ m else m)
                       in take (length m' - p) m' @ ''.'' @ drop (length m' - p) m'))"
proof -
  have "\<lfloor>real n + 1 / 2\<rfloor> = int n"
    by (simp add: floor_eq_iff)
  then show ?thesis
    using assms by (simp add: to_fixed_def Let_def)
qed

text \<open>C36: a fixed-point label reads back as the number it was made from,
  when the number is non-negative and has at most \<open>p\<close> decimals: grouping
  and the point lose nothing (the rounding of \<open>toFixed\<close> is exact then).\<close>

theorem fixed_label_roundtrip:
  assumes "format_fixed_comma p (Num x) = Some s" "0 \<le> x" "x * 10 ^ p = real n"
  shows "read_fixed s = x"
proof -
  obtain t where t: "to_fixed p x = Some t"
    and s: "s = group_thousands (takeWhile is_digit t) @ dropWhile is_digit t"
    using assms(1,2) by (auto simp: format_fixed_comma_def)
  have lt: "x < 10 ^ 21"
    using t by (auto simp: to_fixed_def split: if_splits)
  let ?m = "dec_string n"
  have dm: "\<forall>c\<in>set ?m. is_digit c"
    using dec_string_digits by blast
  have z: "is_digit CHR ''0''"
    by (simp add: is_digit_def)
  show ?thesis
  proof (cases "p = 0")
    case True
    then have "t = ?m"
      using t to_fixed_exact [OF lt assms(3)] by simp
    moreover have tw: "takeWhile is_digit ?m = ?m" and dw: "dropWhile is_digit ?m = []"
      using dm by (simp_all add: takeWhile_eq_all_conv [THEN iffD2] dropWhile_eq_Nil_conv [THEN iffD2])
    ultimately have "s = group_thousands ?m"
      using s by (simp only: tw dw append_Nil2)
    then have fm: "filter (\<lambda>c. c \<noteq> CHR '','') s = ?m"
      using filter_group_thousands [of ?m] dm is_digit_not_sep by blast
    have tw: "takeWhile (\<lambda>c. c \<noteq> CHR ''.'') ?m = ?m" and dw: "dropWhile (\<lambda>c. c \<noteq> CHR ''.'') ?m = []"
      using dm is_digit_not_sep by (simp_all add: takeWhile_eq_all_conv [THEN iffD2] dropWhile_eq_Nil_conv [THEN iffD2])
    show ?thesis
      unfolding read_fixed_def Let_def fm tw dw using assms(3) True
      by (simp add: digits_value_dec_string digits_value_Nil)
  next
    case False
    define m' where "m' = (if length ?m \<le> p then replicate (p + 1 - length ?m) CHR ''0'' @ ?m else ?m)"
    define A where "A = take (length m' - p) m'"
    define B where "B = drop (length m' - p) m'"
    have t': "t = A @ CHR ''.'' # B"
      using t to_fixed_exact [OF lt assms(3)] False by (simp add: Let_def m'_def A_def B_def)
    have dm': "\<forall>c\<in>set m'. is_digit c"
      using dm z by (auto simp: m'_def)
    have len: "p + 1 \<le> length m'"
      by (auto simp: m'_def)
    have AB: "m' = A @ B" "length B = p"
      using len by (simp_all add: A_def B_def)
    have dA: "\<forall>c\<in>set A. is_digit c" and dB: "\<forall>c\<in>set B. is_digit c"
      using dm' AB(1) by auto
    have nd: "\<not> is_digit CHR ''.''"
      by (simp add: is_digit_def)
    have "takeWhile is_digit t = A" "dropWhile is_digit t = CHR ''.'' # B"
      using dA nd by (simp_all add: t' takeWhile_append2 dropWhile_append2)
    then have "s = group_thousands A @ CHR ''.'' # B"
      using s by simp
    moreover have "filter (\<lambda>c. c \<noteq> CHR '','') (group_thousands A) = A"
      using filter_group_thousands [of A] dA is_digit_not_sep by blast
    moreover have "filter (\<lambda>c. c \<noteq> CHR '','') B = B"
      using dB is_digit_not_sep by (simp add: filter_id_conv)
    ultimately have f: "filter (\<lambda>c. c \<noteq> CHR '','') s = A @ CHR ''.'' # B"
      by simp
    have "takeWhile (\<lambda>c. c \<noteq> CHR ''.'') (A @ CHR ''.'' # B) = A"
      "dropWhile (\<lambda>c. c \<noteq> CHR ''.'') (A @ CHR ''.'' # B) = CHR ''.'' # B"
      using dA is_digit_not_sep by (simp_all add: takeWhile_append2 dropWhile_append2)
    then have r: "read_fixed s = real (digits_value A) + real (digits_value B) / 10 ^ p"
      using f AB(2) by (simp add: read_fixed_def)
    have "digits_value m' = n"
      by (simp add: m'_def digits_value_zeros digits_value_dec_string)
    then have "real (digits_value A) * 10 ^ p + real (digits_value B) = real n"
      using AB digits_value_append [of A B] by (metis of_nat_add of_nat_mult of_nat_numeral of_nat_power)
    then have "read_fixed s * 10 ^ p = x * 10 ^ p"
      using r assms(3) by (simp add: field_simps)
    then show ?thesis
      by simp
  qed
qed

theorem fixed_label_roundtrip_witness:
  "format_fixed_comma 1 (Num (24691 / 2)) = Some ''12,345.5'' \<and> read_fixed ''12,345.5'' = 24691 / 2"
proof -
  have f: "format_fixed_comma 1 (Num (24691 / 2)) = Some ''12,345.5''"
    by (simp add: format_fixed_comma_def to_fixed_def dec_string.simps digit_char_def group_thousands_def
        group_chunks.simps is_digit_def)
  show ?thesis
    using fixed_label_roundtrip [OF f, of 123455] f by simp
qed

end
