(* ===== verification/Spec2Isabelle.thy ===== *)
theory Spec2Isabelle
  imports Render YAxisDom
begin

text \<open>
  \<^bold>\<open>A verification model of Zhenmao/ridgeline-plot.\<close>

  The program is one script, \<open>src/main.js\<close>.  It loads a CSV of weekly
  traffic, turns each row into a record, groups the records by name with
  \<open>d3.nest\<close>, sorts each group by date, attaches each group's sum and sorts
  the groups by decreasing sum (lines 1--17); derives the chart's sizes, an x
  scale, a y scale and a colour scale from the grouped data (lines 22--62);
  draws one SVG group per series with a label, a filled area, an outline and
  two edge ticks, plus an axis group (lines 64--164); and animates opacity and
  the axis position when the pointer enters or leaves a series (lines
  166--187).  The parts interact only by data flow: the grouped array feeds the
  scales, both feed the drawing, and the handlers close over the array, the
  groups and the axis group.

  \<^medskip>\<^bold>\<open>Theories.\<close>
  \<^item> \<open>Prelude\<close>: JavaScript numbers as \<open>jsnum\<close> (an exact real or \<open>NaN\<close>),
    the arithmetic the script performs (\<open>js_add\<close>, \<open>js_sub\<close>, \<open>js_mul\<close>,
    \<open>js_less\<close>), the collection \<open>js_num_simps\<close> and shared list lemmas.
  \<^item> \<open>JsRuntime\<close>: the built-ins applied to the data.
    \<open>Array.prototype.sort\<close> with a comparator is \<open>js_sort\<close>, a stable
    insertion sort in which a \<open>NaN\<close> comparator result counts as 0
    (\<open>SortCompare\<close>); \<open>js_sort_eq_sort_key\<close> shows that for a comparator
    \<open>k a - k b\<close> it is the library's \<open>sort_key k\<close>, the equivalence all
    sorting facts go through.  \<open>d3.sum\<close> (\<open>d3_sum\<close>) skips falsy values and
    is a \<open>sum_list\<close>; \<open>d3.max\<close> (\<open>d3_max\<close>) is \<open>Max\<close> in \<open>Option_ord\<close>.
  \<^item> \<open>Aggregate\<close> (lines 5--17): \<open>csv_row\<close> and \<open>datum\<close> records,
    \<open>transform_row\<close>/\<open>csv_transformed\<close> (line 5--9, with \<open>ToNumber\<close> as a
    parameter), \<open>nest_add\<close>/\<open>nest_map\<close>/\<open>nest_entries\<close> for
    \<open>d3.nest().key().sortValues().entries()\<close>, \<open>with_sum\<close> (line 16),
    \<open>sum_cmp\<close> and \<open>aggregate\<close> (line 17).  \<open>aggregate_spec\<close> is the
    abstract specification written with \<open>filter\<close>, \<open>sort_key\<close> and
    \<open>remdups\<close>; claims C1--C8.
  \<^item> \<open>Scales\<close> (lines 22--62): the constants, \<open>chart_width\<close>,
    \<open>chart_height\<close>, \<open>row_offset\<close>; d3-scale's \<open>normalize\<close>,
    \<open>scale_linear\<close> (two-point scales), \<open>bisect_right\<close> (a \<open>function\<close>
    terminating by the measure \<open>hi - lo\<close>), \<open>polymap_rgb\<close> (the four-stop
    colour scale), \<open>parse_hex3\<close> (d3-color on \<open>#rgb\<close>), \<open>color_domain\<close>;
    and \<open>setup_chart\<close>, the whole set-up block as a function into
    \<open>js_error + chart\<close>: \<open>data[0].values\<close> on an empty array is the
    \<open>Inl\<close> branch.  Claims C9--C12.
  \<^item> \<open>Hover\<close> (lines 107--128, 166--187): the state the handlers write
    (\<open>view\<close>), \<open>mouseenter\<close>, \<open>mouseleave\<close>, the dispatch of a pointer event
    to the group listener (\<open>hover_event_step\<close>, \<open>hover_run\<close>), the step
    relation \<open>hover_step\<close> and the reachable views \<open>hover_reachable\<close>, with
    the invariant \<open>hover_inv\<close> (idle, or focused on one row) proved by rule
    induction.  Claims C13--C16.
  \<^item> \<open>Shapes\<close> (lines 86--95): the d3-shape area and line generators with
    \<open>curveBasis\<close>.  The curve is a state machine (\<open>basis\<close>: last two
    points, point counter, the flag \<open>_line\<close>; \<open>basis_point\<close>,
    \<open>basis_line_start\<close>, \<open>basis_line_end\<close>, \<open>basis_area_start\<close>,
    \<open>basis_area_end\<close>) driven by one pass over the data with a sentinel
    (\<open>line_item\<close>/\<open>line_gen\<close>, \<open>area_item\<close>/\<open>area_gen\<close>);
    \<open>ridge_area\<close> and \<open>ridge_line\<close> are the script's configuration.  The
    reference description is \<open>defined_runs\<close> (maximal runs of defined points,
    a \<open>function\<close> terminating by the length of the list) and
    \<open>curve_cmds\<close> (the clamped B-spline of one run).  Claims C18--C24.
  \<^item> \<open>Render\<close> (lines 97--164): the attributes the drawing writes
    (\<open>frame\<close>, \<open>series_group\<close>, \<open>tick_line\<close>), \<open>render_group\<close> with
    its \<open>TypeError\<close> branch for a series without values,
    \<open>render_groups\<close> (the groups in document order, first error wins) and
    \<open>render_chart\<close> (set-up, then drawing); \<open>frame_view\<close> is the part of
    the page the hover handlers rewrite.  Claims C25, C26, C28.
  \<^item> \<open>Axis\<close> (lines 75--84): the y axis' tick values, d3-array's
    \<open>ticks\<close>/\<open>tickIncrement\<close> (\<open>d3_ticks\<close>, \<open>tick_increment\<close>,
    \<open>ticks_of_step\<close>) on the y domain with count 4
    (\<open>y_axis_ticks\<close>), and the removal of the first \<open>.tick\<close>
    (\<open>y_axis_labels\<close>).  Claim C29.
  \<^item> \<open>UtcDate\<close>: the ECMAScript \<open>Date\<close> operations d3-time calls on the
    x axis' time values (integer milliseconds): \<open>Day\<close>,
    \<open>DayFromYear\<close>, \<open>YearFromTime\<close> (\<open>year_from_day\<close>, a
    \<open>function\<close> searching upward from an estimate, terminating by the
    measure \<open>d - DayFromYear y\<close>), \<open>MonthFromTime\<close>,
    \<open>DateFromTime\<close>, \<open>WeekDay\<close>, \<open>MakeTime\<close>, \<open>MakeDay\<close>,
    \<open>MakeDate\<close>, and the \<open>getUTC*\<close>/\<open>setUTC*\<close> methods built on them.
    Its lemmas (decoding a day and \<open>MakeDay\<close> are inverse, the year search
    returns the greatest year whose first day is not after the day, how
    \<open>setUTCDate\<close> moves a time) carry the tick proofs of \<open>TimeTicks\<close>.
  \<^item> \<open>TimeTicks\<close> (lines 65--70): the x axis' tick values.
    \<open>x.ticks(width / 80)\<close> (d3-scale 2.2 time scale) picks an interval from
    the duration table (\<open>tick_interval_choice\<close>) and lists its boundaries
    with \<open>interval.range(t0, t1 + 1)\<close> (\<open>time_range\<close>).  The d3-time
    UTC intervals are \<open>unit_floor\<close>, \<open>unit_offset\<close>, \<open>unit_field\<close>;
    \<open>interval.every\<close> gives the unit, a filter (\<open>filter_floor\<close>,
    \<open>filter_next\<close>), or the millisecond and year special cases.  The
    loops are \<open>partial_function (option)\<close>, \<open>None\<close> being a run that
    does not return.  Claims C31--C33.
  \<^item> \<open>AxisDom\<close> (lines 65--73): what the x axis leaves in its group.
    d3-time-format's formatter (\<open>utc_format\<close>, walking the specifier, with
    \<open>pad\<close> and the en-US locale's names), the time scale's multi-scale
    \<open>time_tick_format\<close>, d3-axis' \<open>axis_bottom\<close> (the domain path and one
    \<open>tick_node\<close> per value: abscissa, line, text) and line 73's
    \<open>remove_domain\<close>, composed in \<open>x_axis_group\<close>.  Claims C34, C35.
  \<^item> \<open>YAxisDom\<close> (lines 75--84): the y axis' group.  d3-format's
    \<open>",.pf"\<close> (\<open>to_fixed\<close> for \<open>Number.prototype.toFixed\<close>,
    \<open>group_thousands\<close>, \<open>format_fixed_comma\<close>) with the precision of
    the linear scale's \<open>tickFormat(4)\<close> (\<open>precision_fixed\<close> of d3-array's
    \<open>tickStep\<close>), and \<open>y_axis_group\<close>: \<open>axis_render Left\<close>, then the
    domain path and the first tick removed.  Claim C36: a label reads back
    (\<open>read_fixed\<close>) as the value it was made from.
  \<^item> This theory: properties across components, C17, C27, C30.

  \<^medskip>\<^bold>\<open>What the lemmas show.\<close>  Grouping keeps every record exactly once,
  keys are distinct and in order of first appearance, values are sorted by date
  when dates are numbers, sums are the sums of the values, the series are in
  non-increasing order of sum with ties kept in first-appearance order, and the
  whole block refines \<open>aggregate_spec\<close>.  Every ridge stays between 0 and
  \<open>height\<close>; the colour scale is piecewise linear in the sum, each of the
  three equal segments of the sum range blending two adjacent palette colours,
  the ends of the sum range get the palette's end colours, and
  bisectRight is the linear count it replaces.  The hover views are idle or
  focused on exactly one row, the axis never leaves the chart, leaving a row
  restores the idle view, and the view depends only on the last event.
  The outline of a series is one clamped B-spline per maximal run of numeric
  values and the area adds the way back along the baseline and closes it
  (both proved equal to the reference description by induction over the data
  with a generalised accumulator); the outline is the top of the area, starts
  and ends at the first and last week, and single-point runs are closed.  The
  x domain depends on the first series alone, so a date of another series is
  inside the plot exactly when it lies within the first series' weeks.  The
  first series' edge ticks meet its outline, while the left tick of a series
  starting later stands at x = 0, detached from its outline; the whole pipeline
  throws only on an empty CSV, and \<open>mouseleave\<close> returns the page to the
  drawn frame.  The tick the y axis removes is always 0, the labels it keeps
  are non-zero values inside the domain, and a flat or non-numeric series
  gets no label.  The chart built from the script's data
  is well formed (sizes from the constants, a y domain from 0, four colour
  stops in increasing order).  On the x axis the tick computation always returns (each filter loop
  decreases a calendar field: the second, minute or hour within its range,
  the date, or the month, and the range loop advances towards \<open>stop\<close>);
  the ticks are increasing boundaries of the interval, below \<open>stop\<close>;
  weekly ticks fall on Sundays at midnight UTC.  At midnight the tick labels
  are the weekday and date, the month and date on Sundays, the month's name
  on the first of a month and the year on the first of January; after line
  73 the x axis has no domain path and its labels run left to right in time
  order, also for a reversed domain.  The y axis keeps its ticks after the
  first, each labelled by the scale's fixed-point format, and a
  fixed-point label with enough decimals reads back as its value.

  \<^medskip>\<^bold>\<open>Choices.\<close>  JavaScript doubles are exact reals with \<open>NaN\<close>;
  infinities and rounding are not modelled, as the data are counts and epoch
  seconds.  \<open>ToNumber\<close> is a parameter of the transformation; the examples use
  \<open>decimal_number\<close>, its restriction to decimal digit strings.  The sort
  model is exact for consistent comparators (ECMAScript requires stability);
  with a \<open>NaN\<close> date the engine's order is implementation-defined and the model
  fixes one.  d3-scale 2.2's behaviour is used for degenerate domains (the
  middle of the range) and a scale applied to \<open>NaN\<close> gives \<open>NaN\<close> (d3's
  \<open>unknown\<close>).  The hover state is the end value of each 500 ms transition;
  a new transition interrupts the running one, so the model keeps the target
  values and not the easing in between.  The loops over the data are bounded;
  the non-structural recursions, bisectRight, \<open>defined_runs\<close> and the
  year search, have termination proofs.  d3-time's filter loops and range
  loop are unbounded in general (a filter whose test never holds loops
  forever), so they are \<open>partial_function (option)\<close> and C31 proves that
  the ones the tick table reaches return; no fuel bound is involved.  Time
  values are integer milliseconds: \<open>TimeClip\<close>'s bound of
  8.64e15 ms is not modelled (the data's dates are weeks of the 2010s).
  The path generators' loops are folds over the data followed by the sentinel \<open>None\<close> (d3's \<open>i = n\<close>).

  \<^medskip>\<^bold>\<open>Not modelled.\<close>  The CSV file load (line 1, asynchronous I/O);
  the DOM: \<open>clientWidth\<close> is the parameter \<open>w\<close> of \<open>setup_chart\<close>;
  the axes' groups are modelled with their tick coordinates as numbers
  rather than \<open>translate(...)\<close> strings; \<open>toFixed\<close> on numbers of
  \<open>10^21\<close> or more (exponential notation, a \<open>None\<close> label), and the
  minus sign of d3-format 1.4 (U+2212, written \<open>-\<close> here); the labels of
  exact reals may differ from those of the doubles in the last digit;
  d3-time-format only with the directives of the default locale that have a
  fixed form (the composite \<open>%c\<close>, \<open>%x\<close>, \<open>%X\<close> and the week and
  day-of-year numbers are not; the script's formats use none of them);
  \<open>Math.log\<close> and \<open>Math.pow\<close> are taken as exact \<open>log\<close> and
  \<open>powr\<close>;
  the serialisation of a path to its \<open>d\<close> string (a path is its list of
  context commands, an empty list being \<open>null\<close>); the easing of
  transitions; the string form of colours (\<open>rgb(r, g, b)\<close> with rounded
  channels).
\<close>

lemma length_aggregate:
  "length (aggregate tonum csv) = length (first_keys (map name (csv_transformed tonum csv)))"
  by (simp add: aggregate_eq)

lemma aggregate_Nil_iff: "aggregate tonum csv = [] \<longleftrightarrow> csv = []"
proof -
  have "aggregate tonum csv = [] \<longleftrightarrow> first_keys (map name (csv_transformed tonum csv)) = []"
    using length_aggregate [of tonum csv] by (metis length_0_conv)
  also have "\<dots> \<longleftrightarrow> csv = []"
    by (metis set_first_keys set_empty map_is_Nil_conv csv_transformed_def)
  finally show ?thesis .
qed

lemma aggregate_values_nonempty:
  "s \<in> set (aggregate tonum csv) \<Longrightarrow> values_list s \<noteq> []"
  by (auto simp: mem_aggregate filter_empty_conv)

lemma distinct_aggregate: "distinct (aggregate tonum csv)"
  using distinct_map_key_aggregate [of tonum csv] by (simp add: distinct_map)

lemma setup_chart_aggregate_Inr:
  assumes "csv \<noteq> []"
  shows "setup_chart w (aggregate tonum csv) = Inr (projr (setup_chart w (aggregate tonum csv)))"
proof -
  obtain s0 rest where agg: "aggregate tonum csv = s0 # rest"
    using assms by (metis aggregate_Nil_iff list.exhaust)
  then have "values_list s0 \<noteq> []"
    by (intro aggregate_values_nonempty [of _ tonum csv]) simp
  then show ?thesis
    using agg by (auto simp: setup_chart_def split: list.splits)
qed

lemma list_all_aggregate_values: "list_all (\<lambda>s. values_list s \<noteq> []) (aggregate tonum csv)"
  by (simp add: list_all_iff aggregate_values_nonempty)

lemma sorted_hd_le_last: "sorted xs \<Longrightarrow> xs \<noteq> [] \<Longrightarrow> hd xs \<le> last xs"
  by (cases xs) (simp_all add: sorted_wrt_append last_in_set)

lemma aggregate_sum_hd_last:
  assumes "aggregate tonum csv \<noteq> []"
  shows "sum_num (last (aggregate tonum csv)) \<le> sum_num (hd (aggregate tonum csv))"
proof -
  have "sorted (map (\<lambda>s. - sum_num s) (aggregate tonum csv))"
    by (simp add: aggregate_sort_key)
  then show ?thesis
    using sorted_hd_le_last [of "map (\<lambda>s. - sum_num s) (aggregate tonum csv)"] assms
    by (simp add: hd_map last_map)
qed

text \<open>The set-up block throws its \<open>TypeError\<close> exactly when the CSV has
  no rows; otherwise it produces a chart (every group has at least one
  record, so \<open>data[0].values[0]\<close> exists).\<close>

theorem setup_fails_iff_empty_csv:
  "setup_chart w (aggregate tonum csv) =
     (if csv = [] then Inl (TypeError ''data[0] is undefined'')
      else Inr (projr (setup_chart w (aggregate tonum csv))))"
proof (cases "csv = []")
  case True
  then show ?thesis by (simp add: aggregate_Nil_iff [of tonum csv, symmetric] setup_chart_def)
next
  case False
  then show ?thesis
    using setup_chart_aggregate_Inr [OF False] by simp
qed

text \<open>On the data the script actually builds, every view reachable by
  pointer events is idle or focused on one row: the series of
  \<open>aggregate\<close> are distinct, so \<open>e === d\<close> singles out exactly one group.\<close>

theorem pipeline_hover_invariant:
  assumes "hover_reachable (aggregate tonum csv) height v"
  shows "hover_inv (aggregate tonum csv) height v"
  using assms distinct_aggregate by (rule hover_reachable_inv)

text \<open>C17: the x domain is taken from \<open>data[0]\<close> alone.  Whatever series
  follow the first one, the x scale is the same: it maps a date t to
  (t - a) / (b - a) * width, where a and b are the first and last dates of the
  first series, so a date of any series lies inside the plot area [0, width]
  exactly when it lies between a and b; weeks of other series outside the first
  series' range are drawn outside the chart.\<close>

theorem x_domain_first_series_only:
  assumes "setup_chart w (s0 # rest) = Inr c"
    and "date (hd (values_list s0)) = Num a" "date (last (values_list s0)) = Num b" "a < b"
    and "0 < chart_width w"
  shows "(\<forall>rest' c'. setup_chart w (s0 # rest') = Inr c' \<longrightarrow> x_scale c' = x_scale c) \<and>
         x_scale c (Num t) = Num ((t - a) / (b - a) * chart_width w) \<and>
         (0 \<le> (t - a) / (b - a) * chart_width w \<and> (t - a) / (b - a) * chart_width w \<le> chart_width w \<longleftrightarrow>
          a \<le> t \<and> t \<le> b)"
proof -
  have dom: "x_domain c = (Num a, Num b)" "c_width c = chart_width w"
    using assms(1-3) by (auto simp: setup_chart_Inr)
  have same: "x_scale c' = x_scale c" if "setup_chart w (s0 # rest') = Inr c'" for rest' c'
  proof -
    have "x_domain c' = (Num a, Num b)" "c_width c' = chart_width w"
      using that assms(2,3) by (auto simp: setup_chart_Inr)
    then show ?thesis using dom by (simp add: x_scale_def)
  qed
  have ba: "0 < b - a" using assms(4) by simp
  have lo: "0 \<le> (t - a) / (b - a) * chart_width w \<longleftrightarrow> a \<le> t"
    using ba assms(5) by (simp add: zero_le_mult_iff zero_le_divide_iff)
  have "(t - a) / (b - a) * chart_width w \<le> 1 * chart_width w \<longleftrightarrow> (t - a) / (b - a) \<le> 1"
    using assms(5) by (rule mult_le_cancel_right_pos)
  also have "\<dots> \<longleftrightarrow> t \<le> b" using ba by (simp add: divide_le_eq_1_pos)
  finally have hi: "(t - a) / (b - a) * chart_width w \<le> chart_width w \<longleftrightarrow> t \<le> b" by simp
  have "x_scale c (Num t) = Num ((t - a) / (b - a) * chart_width w)"
    using dom assms(4) by (simp add: x_scale_def scale_linear_Num)
  then show ?thesis
    using same lo hi by blast
qed

theorem pipeline_hover_invariant_witness:
  "hover_reachable (aggregate decimal_number example_rows) 90
     (mouseenter (aggregate decimal_number example_rows) (aggregate decimal_number example_rows ! 1) 1
        (hover_init (aggregate decimal_number example_rows) 90)) \<and>
   hover_inv (aggregate decimal_number example_rows) 90
     (mouseenter (aggregate decimal_number example_rows) (aggregate decimal_number example_rows ! 1) 1
        (hover_init (aggregate decimal_number example_rows) 90))"
proof -
  have len: "1 < length (aggregate decimal_number example_rows)"
    by (simp add: example_rows_def aggregate_eval)
  have h: "hover_reachable (aggregate decimal_number example_rows) 90
     (mouseenter (aggregate decimal_number example_rows) (aggregate decimal_number example_rows ! 1) 1
        (hover_init (aggregate decimal_number example_rows) 90))"
    by (rule hover_reachable.step [OF hover_reachable.init hover_step.enter [OF len]])
  show ?thesis using h pipeline_hover_invariant [OF h] by simp
qed

text \<open>C27: the whole drawing (set-up and the per-series groups) throws only
  on an empty CSV: every series the script builds has a first value, so
  \<open>d.values[0].value\<close> and \<open>d.values[d.values.length - 1].value\<close> never read
  an undefined element.\<close>

theorem render_fails_iff_empty_csv:
  "render_chart w (aggregate tonum csv) =
     (if csv = [] then Inl (TypeError ''data[0] is undefined'')
      else Inr (projr (render_chart w (aggregate tonum csv))))"
proof (cases "csv = []")
  case True
  then show ?thesis
    by (simp add: aggregate_Nil_iff [of tonum csv, symmetric] render_chart_def setup_chart_def)
next
  case False
  obtain c where c: "setup_chart w (aggregate tonum csv) = Inr c"
    using setup_chart_aggregate_Inr [OF False] by blast
  then show ?thesis
    using False list_all_aggregate_values [of tonum csv] render_groups_eq [of c 0 "aggregate tonum csv"]
    by (simp add: render_chart_def)
qed

text \<open>C30: the chart the set-up block builds from the script's data is well
  formed: its sizes follow the constants (\<open>width = svgWidth - 128\<close>,
  \<open>height = (n - 1) * 15 + 75 \<ge> 75\<close>, \<open>svgHeight = height + 32\<close>), the y
  domain starts at 0, and the colour domain has one stop per palette colour
  in increasing order (the last series has the smallest sum).\<close>

theorem setup_chart_wellformed:
  assumes "setup_chart w (aggregate tonum csv) = Inr c"
  shows "c_width c = w - 128 \<and> c_height c = (real (length (aggregate tonum csv)) - 1) * 15 + 75 \<and>
         75 \<le> c_height c \<and> c_svg_height c = c_height c + 32 \<and> fst (y_domain c) = Num 0 \<and>
         length (c_color_domain c) = length color_range \<and> sorted (c_color_domain c)"
proof -
  obtain s0 rest v0 vs where agg: "aggregate tonum csv = s0 # rest" "values_list s0 = v0 # vs"
    and c: "c = \<lparr>c_svg_width = w, c_width = chart_width w, c_height = chart_height (length (aggregate tonum csv)),
           c_svg_height = svg_height (length (aggregate tonum csv)),
           x_domain = (date v0, date (last (v0 # vs))), y_domain = (Num 0, y_max (aggregate tonum csv)),
           c_color_domain = color_domain (sum_num s0) (sum_num (last (aggregate tonum csv)))\<rparr>"
    using assms unfolding setup_chart_Inr by blast
  have "sum_num (last (aggregate tonum csv)) \<le> sum_num s0"
    using aggregate_sum_hd_last [of tonum csv] agg(1) by simp
  then have "sorted (c_color_domain c)"
    using c sorted_color_domain by simp
  moreover have "length (c_color_domain c) = length color_range"
    using c by (simp add: color_domain_def)
  ultimately show ?thesis
    using c agg(1) by (simp add: chart_width_def chart_height_def svg_height_def margin_def step_def y_range_max_def)
qed

theorem x_domain_first_series_only_witness:
  "setup_chart 600 (hd example_series # tl example_series) =
     Inr (projr (setup_chart 600 example_series)) \<and>
   x_scale (projr (setup_chart 600 [hd example_series])) = x_scale (projr (setup_chart 600 example_series)) \<and>
   x_scale (projr (setup_chart 600 example_series)) (Num 2000) = Num (2 * 472) \<and>
   \<not> (2 * 472 \<le> chart_width 600)"
proof -
  have h1: "setup_chart 600 (hd example_series # tl example_series) = Inr (projr (setup_chart 600 example_series))"
    by (simp add: scales_eval)
  have h2: "date (hd (values_list (hd example_series))) = Num 0"
    and h3: "date (last (values_list (hd example_series))) = Num 1000"
    by (simp_all add: example_series_def)
  have h4: "(0::real) < 1000" by simp
  have h5: "0 < chart_width 600" and cw: "chart_width 600 = 472"
    by (simp_all add: chart_width_def margin_def)
  have one: "setup_chart 600 (hd example_series # []) = Inr (projr (setup_chart 600 [hd example_series]))"
    by (simp add: scales_eval)
  note th = x_domain_first_series_only [OF h1 h2 h3 h4 h5, of 2000]
  have same: "x_scale (projr (setup_chart 600 [hd example_series])) = x_scale (projr (setup_chart 600 example_series))"
    using th one by blast
  have x: "x_scale (projr (setup_chart 600 example_series)) (Num 2000) = Num (2 * 472)"
    using th unfolding cw by simp
  show ?thesis
    by (intro conjI h1 same x) (simp add: cw)
qed

theorem setup_chart_wellformed_witness:
  "setup_chart 600 (aggregate decimal_number example_rows) =
     Inr (projr (setup_chart 600 (aggregate decimal_number example_rows))) \<and>
   c_height (projr (setup_chart 600 (aggregate decimal_number example_rows))) = 90 \<and>
   sorted (c_color_domain (projr (setup_chart 600 (aggregate decimal_number example_rows))))"
proof -
  have r: "setup_chart 600 (aggregate decimal_number example_rows) =
     Inr (projr (setup_chart 600 (aggregate decimal_number example_rows)))"
    by (rule setup_chart_aggregate_Inr) (simp add: example_rows_def)
  have n: "length (aggregate decimal_number example_rows) = 2"
    by (simp add: example_rows_def aggregate_eval)
  show ?thesis
    using r setup_chart_wellformed [OF r] n by simp
qed

end
